theory Spec2Isabelle
  imports Main
begin

section \<open>Data model of \<^verbatim>\<open>atlas/generators.py\<close>\<close>

text \<open>
  Python objects are compared by identity in the code under study (\<^verbatim>\<open>g is not self\<close>,
  \<^verbatim>\<open>i is not hook\<close>), so Generator, Hook and Strategy objects are references; two
  references are the same object exactly when they are equal. The original function
  wrapped by a Generator is a reference as well.
\<close>

type_synonym gen_ref = nat
type_synonym hook_ref = nat
type_synonym strat_ref = nat
type_synonym func_ref = nat

text \<open>
  The exceptions that the modelled code raises or handles. \<open>ExceptionAsContinue\<close> is the
  class imported from \<^verbatim>\<open>atlas.exceptions\<close>; \<open>PyException\<close> is the plain \<^verbatim>\<open>Exception\<close>
  raised with a message by \<^verbatim>\<open>make_strategy\<close> and \<^verbatim>\<open>get_user_oid\<close>, and stands for
  every exception that user code raises. \<open>StopIteration_exn\<close> is Python's
  \<^verbatim>\<open>StopIteration\<close> raised as an exception by some code, as opposed to the end of an
  iteration, and \<open>RuntimeError\<close> is what Python puts in its place when it leaves the
  body of a generator function.
\<close>

datatype exn =
    ExceptionAsContinue
  | ValueError string
  | KeyError string
  | TypeError string
  | IndexError string
  | StopIteration_exn
  | RuntimeError string
  | PyException string

text \<open>
  The callable returned by \<^verbatim>\<open>compile_func(gen, func, strategy, hooks)\<close>. The rewriting
  of the syntax tree is not modelled; the result is kept symbolic and records the four
  arguments it was compiled from.
\<close>

datatype compiled = Compiled gen_ref func_ref strat_ref "hook_ref list"

text \<open>The attributes assigned in \<^verbatim>\<open>Generator.__init__\<close> (lines 148-169).\<close>

record generator =
  func :: func_ref
  strategy :: strat_ref
  compiled_func :: "compiled option"
  name :: "string option"
  group :: "string option"
  hooks :: "hook_ref list"

text \<open>
  Modelled from the spec: the \<^verbatim>\<open>Hook\<close> class of \<^verbatim>\<open>atlas.hooks\<close> is not among the
  sources. The spec describes a hook as an observer with the extension points
  \<^verbatim>\<open>init\<close>, \<^verbatim>\<open>init_run\<close>, \<^verbatim>\<open>finish_run\<close>, \<^verbatim>\<open>finish\<close>, \<^verbatim>\<open>before_op\<close> and \<^verbatim>\<open>after_op\<close>;
  a notification is modelled as an entry appended to an event list, carrying the
  arguments the source passes. Calls of the strategy's lifecycle methods and of the
  compiled function are entered in the same list, so that the order and the number of
  all of them can be read off.
\<close>

datatype ('a, 'v) event =
    Hook_init hook_ref 'a
  | Hook_init_run hook_ref 'a
  | Hook_finish_run hook_ref
  | Hook_finish hook_ref
  | Hook_before_op hook_ref 'a gen_ref string string
  | Hook_after_op hook_ref 'a gen_ref string string 'v
  | Strategy_init strat_ref
  | Strategy_init_run strat_ref
  | Strategy_finish_run strat_ref
  | Strategy_finish strat_ref
  | Run compiled 'a

text \<open>
  The state of the process: the heap of Generator objects, the process-wide registry of
  groups (group name to the ordered list of its members), the state of every Strategy
  object, the next unused object reference, and the events so far. \<open>'a\<close> is the type of
  an argument tuple (\<^verbatim>\<open>*args, **kwargs\<close>), \<open>'v\<close> the type of Python values and \<open>'s\<close> the
  type of the exploration state a Strategy object holds.
\<close>

record ('a, 'v, 's) world =
  gens :: "gen_ref \<Rightarrow> generator"
  groups :: "string \<rightharpoonup> gen_ref list"
  strats :: "strat_ref \<Rightarrow> 's"
  fresh :: nat
  events :: "('a, 'v) event list"

section \<open>The randomized strategy: \<^verbatim>\<open>atlas/strategies/randomized.py\<close>\<close>

text \<open>
  \<^verbatim>\<open>random.choice(seq)\<close> of the Python standard library raises IndexError on an empty
  sequence and otherwise returns \<^verbatim>\<open>seq[self._randbelow(len(seq))]\<close>. The generator of
  random numbers is a parameter: \<open>randbelow n\<close> is the number it draws when asked for one
  below \<open>n\<close>. An index outside the list raises IndexError, as Python's indexing does.
\<close>

definition random_choice :: "(nat \<Rightarrow> nat) \<Rightarrow> 'v list \<Rightarrow> exn + 'v" where
  "random_choice randbelow seq =
     (if length seq = 0 then Inl (IndexError ''Cannot choose from an empty sequence'')
      else let i = randbelow (length seq) in
        if i < length seq then Inr (seq ! i)
        else Inl (IndexError ''list index out of range''))"

text \<open>\<^verbatim>\<open>RandStrategy.is_finished\<close> (lines 15-16).\<close>

definition RandStrategy_is_finished :: "'s \<Rightarrow> bool" where
  "RandStrategy_is_finished self = False"

text \<open>
  \<^verbatim>\<open>RandStrategy.Select\<close> (lines 18-20); the further positional and keyword
  arguments are ignored by the source.
\<close>

definition RandStrategy_Select :: "(nat \<Rightarrow> nat) \<Rightarrow> 's \<Rightarrow> 'v list \<Rightarrow> exn + 'v" where
  "RandStrategy_Select randbelow self domain = random_choice randbelow domain"

section \<open>Collaborators that are not among the sources\<close>

text \<open>
  The base class \<^verbatim>\<open>Strategy\<close>, the depth-first strategy, the function under
  compilation and the tracer are code the Generator calls but does not contain. They are
  parameters of the model:
  \<^item> \<open>new_RandStrategy\<close>, \<open>new_DfsStrategy\<close>: the state of a newly constructed strategy;
  \<^item> \<open>strategy_init\<close>, \<open>strategy_is_finished\<close>, \<open>strategy_init_run\<close>,
    \<open>strategy_finish_run\<close>, \<open>strategy_finish\<close>: the lifecycle methods, acting on the
    state of the Strategy object they are called on;
  \<^item> \<open>compile_error\<close>: the exception, if any, that \<^verbatim>\<open>compile_func\<close> raises for the
    given arguments (a non-literal \<^verbatim>\<open>oid\<close>, a failure of the strategy's \<^verbatim>\<open>process_op\<close>);
  \<^item> \<open>exec_func\<close>: one run of a compiled function on an argument tuple, from the state
    of the strategy it was compiled against: the value returned or the exception
    raised, and the strategy's state afterwards;
  \<^item> \<open>get_last_trace\<close>: what \<^verbatim>\<open>DefaultTracer.get_last_trace\<close> returns.
\<close>

record ('a, 'v, 's) env =
  new_RandStrategy :: 's
  new_DfsStrategy :: 's
  strategy_init :: "'s \<Rightarrow> 's"
  strategy_is_finished :: "'s \<Rightarrow> bool"
  strategy_init_run :: "'s \<Rightarrow> 's"
  strategy_finish_run :: "'s \<Rightarrow> 's"
  strategy_finish :: "'s \<Rightarrow> 's"
  compile_error :: "gen_ref \<Rightarrow> func_ref \<Rightarrow> strat_ref \<Rightarrow> hook_ref list \<Rightarrow> exn option"
  exec_func :: "compiled \<Rightarrow> 'a \<Rightarrow> 's \<Rightarrow> (exn + 'v) \<times> 's"
  get_last_trace :: "hook_ref \<Rightarrow> ('a, 'v) event list \<Rightarrow> 'v"

text \<open>
  Modelled from the spec: \<^verbatim>\<open>get_group_by_name\<close> of \<^verbatim>\<open>atlas.utils.genutils\<close> is not
  among the sources. The spec describes the registry as a mapping from a group name to
  the ordered list of its Generators; \<^verbatim>\<open>Generator.__init__\<close> (line 163) expects a
  KeyError for a name that is not registered.
\<close>

definition get_group_by_name :: "string \<Rightarrow> ('a, 'v, 's) world \<Rightarrow> exn + gen_ref list" where
  "get_group_by_name n w = (case groups w n of None \<Rightarrow> Inl (KeyError n) | Some ms \<Rightarrow> Inr ms)"

section \<open>Configuration of a Generator\<close>

text \<open>
  A \<^verbatim>\<open>for\<close> loop whose body may raise: the first exception ends the loop, with the
  changes made so far kept.
\<close>

fun for_each :: "('x \<Rightarrow> 'w \<Rightarrow> (exn + unit) \<times> 'w) \<Rightarrow> 'x list \<Rightarrow> 'w \<Rightarrow> (exn + unit) \<times> 'w" where
  "for_each body [] w = (Inr (), w)"
| "for_each body (x # xs) w =
     (case body x w of (Inl e, w') \<Rightarrow> (Inl e, w') | (Inr u, w') \<Rightarrow> for_each body xs w')"

text \<open>
  The loop over the group shared by lines 185-188, 203-206 and 224-227:
  \<^verbatim>\<open>if as_group and self.group is not None: for g in get_group_by_name(self.group):
  if g is not self: ...\<close>
\<close>

definition for_group ::
  "gen_ref \<Rightarrow> bool \<Rightarrow> (gen_ref \<Rightarrow> ('a, 'v, 's) world \<Rightarrow> (exn + unit) \<times> ('a, 'v, 's) world) \<Rightarrow>
   ('a, 'v, 's) world \<Rightarrow> (exn + unit) \<times> ('a, 'v, 's) world" where
  "for_group self as_group body w =
     (case group (gens w self) of
        None \<Rightarrow> (Inr (), w)
      | Some n \<Rightarrow>
          if as_group then
            (case get_group_by_name n w of
               Inl e \<Rightarrow> (Inl e, w)
             | Inr ms \<Rightarrow> for_each (\<lambda>g w'. if g \<noteq> self then body g w' else (Inr (), w')) ms w)
          else (Inr (), w))"

text \<open>
  The argument of \<^verbatim>\<open>make_strategy\<close> is a string or a Strategy object
  (\<^verbatim>\<open>Union[str, Strategy]\<close>).
\<close>

datatype strategy_arg = Named string | Instance strat_ref

text \<open>\<^verbatim>\<open>make_strategy\<close> (lines 29-39); a constructor call allocates a new object.\<close>

definition new_strategy :: "'s \<Rightarrow> ('a, 'v, 's) world \<Rightarrow> (exn + strat_ref) \<times> ('a, 'v, 's) world" where
  "new_strategy s0 w =
     (Inr (fresh w), w\<lparr>strats := (strats w)(fresh w := s0), fresh := Suc (fresh w)\<rparr>)"

definition make_strategy ::
  "('a, 'v, 's) env \<Rightarrow> strategy_arg \<Rightarrow> ('a, 'v, 's) world \<Rightarrow> (exn + strat_ref) \<times> ('a, 'v, 's) world" where
  "make_strategy E arg w =
     (case arg of
        Instance r \<Rightarrow> (Inr r, w)
      | Named s \<Rightarrow>
          if s = ''randomized'' then new_strategy (new_RandStrategy E) w
          else if s = ''dfs'' then new_strategy (new_DfsStrategy E) w
          else (Inl (PyException (''Unrecognized strategy - '' @ s)), w))"

text \<open>
  Lines 182-183 of \<^verbatim>\<open>set_strategy\<close>. This is all that the nested call
  \<^verbatim>\<open>g.set_strategy(self.strategy, as_group=False)\<close> of line 188 executes, its
  \<^verbatim>\<open>as_group\<close> being false.
\<close>

definition set_strategy_self ::
  "('a, 'v, 's) env \<Rightarrow> gen_ref \<Rightarrow> strategy_arg \<Rightarrow> ('a, 'v, 's) world \<Rightarrow> (exn + unit) \<times> ('a, 'v, 's) world" where
  "set_strategy_self E self arg w =
     (case make_strategy E arg w of
        (Inl e, w1) \<Rightarrow> (Inl e, w1)
      | (Inr r, w1) \<Rightarrow>
          (Inr (), w1\<lparr>gens := (gens w1)(self := (gens w1 self)\<lparr>strategy := r, compiled_func := None\<rparr>)\<rparr>))"

text \<open>\<^verbatim>\<open>Generator.set_strategy\<close> (lines 171-188).\<close>

definition set_strategy ::
  "('a, 'v, 's) env \<Rightarrow> gen_ref \<Rightarrow> strategy_arg \<Rightarrow> bool \<Rightarrow> ('a, 'v, 's) world \<Rightarrow> (exn + unit) \<times> ('a, 'v, 's) world" where
  "set_strategy E self arg as_group w =
     (case set_strategy_self E self arg w of
        (Inl e, w1) \<Rightarrow> (Inl e, w1)
      | (Inr u, w1) \<Rightarrow>
          for_group self as_group
            (\<lambda>g w'. set_strategy_self E g (Instance (strategy (gens w' self))) w') w1)"

text \<open>Lines 200-201 of \<^verbatim>\<open>register_hooks\<close>, which is what the nested call of line 206 executes.\<close>

definition register_hooks_self ::
  "gen_ref \<Rightarrow> hook_ref list \<Rightarrow> ('a, 'v, 's) world \<Rightarrow> (exn + unit) \<times> ('a, 'v, 's) world" where
  "register_hooks_self self hs w =
     (Inr (), w\<lparr>gens := (gens w)(self := (gens w self)\<lparr>compiled_func := None, hooks := hooks (gens w self) @ hs\<rparr>)\<rparr>)"

text \<open>\<^verbatim>\<open>Generator.register_hooks\<close> (lines 190-206).\<close>

definition register_hooks ::
  "gen_ref \<Rightarrow> hook_ref list \<Rightarrow> bool \<Rightarrow> ('a, 'v, 's) world \<Rightarrow> (exn + unit) \<times> ('a, 'v, 's) world" where
  "register_hooks self hs as_group w =
     (case register_hooks_self self hs w of
        (Inl e, w1) \<Rightarrow> (Inl e, w1)
      | (Inr u, w1) \<Rightarrow> for_group self as_group (\<lambda>g w'. register_hooks_self g hs w') w1)"

text \<open>
  Lines 218-222 of \<^verbatim>\<open>deregister_hook\<close>, which is what the nested call of line 227
  executes. \<^verbatim>\<open>list.remove\<close> deletes the first element equal to its argument; hooks are
  compared by identity.
\<close>

definition deregister_hook_self ::
  "gen_ref \<Rightarrow> hook_ref \<Rightarrow> ('a, 'v, 's) world \<Rightarrow> (exn + unit) \<times> ('a, 'v, 's) world" where
  "deregister_hook_self self hook w =
     (if list_all (\<lambda>i. i \<noteq> hook) (hooks (gens w self))
      then (Inl (ValueError ''Hook was not registered.''), w)
      else (Inr (), w\<lparr>gens := (gens w)(self := (gens w self)\<lparr>compiled_func := None,
                        hooks := remove1 hook (hooks (gens w self))\<rparr>)\<rparr>))"

text \<open>\<^verbatim>\<open>Generator.deregister_hook\<close> (lines 208-227).\<close>

definition deregister_hook ::
  "gen_ref \<Rightarrow> hook_ref \<Rightarrow> bool \<Rightarrow> ('a, 'v, 's) world \<Rightarrow> (exn + unit) \<times> ('a, 'v, 's) world" where
  "deregister_hook self hook as_group w =
     (case deregister_hook_self self hook w of
        (Inl e, w1) \<Rightarrow> (Inl e, w1)
      | (Inr u, w1) \<Rightarrow> for_group self as_group (\<lambda>g w'. deregister_hook_self g hook w') w1)"

section \<open>Hook wrapping: \<^verbatim>\<open>compile_op\<close>\<close>

text \<open>
  The arguments of a call of an operator: the positional ones (\<^verbatim>\<open>*args\<close>) and the
  keyword ones (\<^verbatim>\<open>**kwargs\<close>), by name.
\<close>

datatype 'v call_args = Call_args (args: "'v list") (kwargs: "(string \<times> 'v) list")

text \<open>
  The \<^verbatim>\<open>hooks\<close> parameter of \<^verbatim>\<open>compile_op\<close> is a list object, and the closure it
  returns keeps the object, not its contents. \<^verbatim>\<open>Generator\<close> passes its own
  \<^verbatim>\<open>self.hooks\<close> (lines 240 and 258, through \<^verbatim>\<open>compile_func\<close>), the list that
  \<^verbatim>\<open>register_hooks\<close> and \<^verbatim>\<open>deregister_hook\<close> change in place; any other list is one
  that the code under study never changes.
\<close>

datatype hook_list = Hooks_of gen_ref | Other_list "hook_ref list"

definition read_hooks :: "hook_list \<Rightarrow> ('a, 'v, 's) world \<Rightarrow> hook_ref list" where
  "read_hooks hl w = (case hl of Hooks_of g \<Rightarrow> hooks (gens w g) | Other_list hs \<Rightarrow> hs)"

text \<open>
  Callables are objects: an operator as the strategy provides it, or a closure
  \<^verbatim>\<open>create_op\<close> made by \<^verbatim>\<open>compile_op\<close>, which holds the variables of lines 42-71 that
  its body refers to. A closure is a new object, different from the operator it holds.
\<close>

datatype ('v, 's) callable =
    Operator "'v call_args \<Rightarrow> ('v call_args, 'v, 's) world \<Rightarrow>
              (exn + 'v) \<times> ('v call_args, 'v, 's) world"
  | Create_op gen_ref string string "('v, 's) callable" hook_list

text \<open>
  Python refuses a call in which a keyword argument is given twice: with a TypeError,
  before the callee runs.
\<close>

definition repeated_keyword :: "string list \<Rightarrow> 'v call_args \<Rightarrow> bool" where
  "repeated_keyword names a = list_ex (\<lambda>k. k \<in> set names) (map fst (kwargs a))"

text \<open>
  \<^verbatim>\<open>h.before_op(*args, **kwargs, generator=gen, op_name=op_name, sid=sid)\<close> (line 62).
\<close>

definition before_op ::
  "hook_ref \<Rightarrow> 'v call_args \<Rightarrow> gen_ref \<Rightarrow> string \<Rightarrow> string \<Rightarrow> ('v call_args, 'v, 's) world \<Rightarrow>
   (exn + unit) \<times> ('v call_args, 'v, 's) world" where
  "before_op h a gen op_name sid w =
     (if repeated_keyword [''generator'', ''op_name'', ''sid''] a
      then (Inl (TypeError ''got multiple values for keyword argument''), w)
      else (Inr (), w\<lparr>events := events w @ [Hook_before_op h a gen op_name sid]\<rparr>))"

text \<open>
  \<^verbatim>\<open>h.after_op(*args, **kwargs, generator=gen, op_name=op_name, sid=sid, retval=result)\<close>
  (line 67).
\<close>

definition after_op ::
  "hook_ref \<Rightarrow> 'v call_args \<Rightarrow> gen_ref \<Rightarrow> string \<Rightarrow> string \<Rightarrow> 'v \<Rightarrow>
   ('v call_args, 'v, 's) world \<Rightarrow> (exn + unit) \<times> ('v call_args, 'v, 's) world" where
  "after_op h a gen op_name sid retval w =
     (if repeated_keyword [''generator'', ''op_name'', ''sid'', ''retval''] a
      then (Inl (TypeError ''got multiple values for keyword argument''), w)
      else (Inr (), w\<lparr>events := events w @ [Hook_after_op h a gen op_name sid retval]\<rparr>))"

text \<open>
  A call of a callable. For a closure this is the body of \<^verbatim>\<open>create_op\<close> (lines 60-69):
  each \<^verbatim>\<open>for h in hooks\<close> goes through the list as it is when the loop starts, and
  an exception, of a hook call or of the operator, leaves the body where it is raised.
\<close>

fun invoke ::
  "('v, 's) callable \<Rightarrow> 'v call_args \<Rightarrow> ('v call_args, 'v, 's) world \<Rightarrow>
   (exn + 'v) \<times> ('v call_args, 'v, 's) world" where
  "invoke (Operator f) a w = f a w"
| "invoke (Create_op gen op_name sid op hl) a w =
     (case for_each (\<lambda>h w'. before_op h a gen op_name sid w') (read_hooks hl w) w of
        (Inl e, w1) \<Rightarrow> (Inl e, w1)
      | (Inr u, w1) \<Rightarrow>
          (case invoke op a w1 of
             (Inl e, w2) \<Rightarrow> (Inl e, w2)
           | (Inr result, w2) \<Rightarrow>
               (case for_each (\<lambda>h w'. after_op h a gen op_name sid result w')
                       (read_hooks hl w2) w2 of
                  (Inl e, w3) \<Rightarrow> (Inl e, w3)
                | (Inr u', w3) \<Rightarrow> (Inr result, w3))))"

text \<open>
  \<^verbatim>\<open>compile_op\<close> (lines 42-71), called in the state \<open>w\<close>: the length of the list is
  taken then, once.
\<close>

definition compile_op ::
  "gen_ref \<Rightarrow> string \<Rightarrow> string \<Rightarrow> ('v, 's) callable \<Rightarrow> hook_list \<Rightarrow> ('a, 'v, 's) world \<Rightarrow>
   ('v, 's) callable" where
  "compile_op gen op_name sid op hl w =
     (if length (read_hooks hl w) = 0 then op else Create_op gen op_name sid op hl)"

section \<open>Compilation and the single call\<close>

text \<open>\<^verbatim>\<open>compile_func\<close> (lines 74-132), as far as its outcome goes.\<close>

definition compile_func ::
  "('a, 'v, 's) env \<Rightarrow> gen_ref \<Rightarrow> func_ref \<Rightarrow> strat_ref \<Rightarrow> hook_ref list \<Rightarrow> exn + compiled" where
  "compile_func E gen f s hs =
     (case compile_error E gen f s hs of Some e \<Rightarrow> Inl e | None \<Rightarrow> Inr (Compiled gen f s hs))"

text \<open>
  \<^verbatim>\<open>if self._compiled_func is None: self._compiled_func = compile_func(self, self.func,
  self.strategy, self.hooks)\<close> (lines 239-240 and 257-258).
\<close>

definition compile_if_needed ::
  "('a, 'v, 's) env \<Rightarrow> gen_ref \<Rightarrow> ('a, 'v, 's) world \<Rightarrow> (exn + unit) \<times> ('a, 'v, 's) world" where
  "compile_if_needed E self w =
     (if compiled_func (gens w self) = None then
        (case compile_func E self (func (gens w self)) (strategy (gens w self)) (hooks (gens w self)) of
           Inl e \<Rightarrow> (Inl e, w)
         | Inr c \<Rightarrow> (Inr (), w\<lparr>gens := (gens w)(self := (gens w self)\<lparr>compiled_func := Some c\<rparr>)\<rparr>))
      else (Inr (), w))"

text \<open>
  \<^verbatim>\<open>self._compiled_func(*args, **kwargs)\<close> (lines 242 and 270). Calling \<^verbatim>\<open>None\<close> is a
  TypeError in Python. The run acts on the strategy the function was compiled against.
\<close>

definition call_compiled_func ::
  "('a, 'v, 's) env \<Rightarrow> gen_ref \<Rightarrow> 'a \<Rightarrow> ('a, 'v, 's) world \<Rightarrow> (exn + 'v) \<times> ('a, 'v, 's) world" where
  "call_compiled_func E self a w =
     (case compiled_func (gens w self) of
        None \<Rightarrow> (Inl (TypeError ''NoneType object is not callable''), w)
      | Some c \<Rightarrow>
          (case c of Compiled cg cf cs chs \<Rightarrow>
            (case exec_func E c a (strats w cs) of
               (r, s') \<Rightarrow> (r, w\<lparr>strats := (strats w)(cs := s'), events := events w @ [Run c a]\<rparr>))))"

text \<open>\<^verbatim>\<open>Generator.__call__\<close> (lines 229-242).\<close>

definition Generator_call ::
  "('a, 'v, 's) env \<Rightarrow> gen_ref \<Rightarrow> 'a \<Rightarrow> ('a, 'v, 's) world \<Rightarrow> (exn + 'v) \<times> ('a, 'v, 's) world" where
  "Generator_call E self a w =
     (case compile_if_needed E self w of
        (Inl e, w1) \<Rightarrow> (Inl e, w1)
      | (Inr u, w1) \<Rightarrow> call_compiled_func E self a w1)"

section \<open>Enumeration: \<^verbatim>\<open>Generator.generate\<close>\<close>

text \<open>
  \<^verbatim>\<open>generate\<close> is a Python generator function: calling it runs nothing, and each
  \<^verbatim>\<open>next\<close> of the iterator runs its body up to the next \<^verbatim>\<open>yield\<close>, to its end
  (StopIteration) or to an exception. Between two calls of \<^verbatim>\<open>next\<close> the iterator is in
  one of three places: not started, suspended at the \<^verbatim>\<open>yield\<close> of line 270, or closed.
\<close>

datatype frame = Created | Suspended | Closed

datatype 'y signal = Yield 'y | StopIteration | Raise exn

text \<open>
  An exception that leaves the body of a generator function reaches the caller of
  \<^verbatim>\<open>next\<close> as it is, except \<^verbatim>\<open>StopIteration\<close>: Python replaces it by a RuntimeError,
  since a StopIteration coming out of \<^verbatim>\<open>next\<close> means that the iteration is over.
\<close>

definition generator_raise :: "exn \<Rightarrow> exn" where
  "generator_raise e =
     (if e = StopIteration_exn then RuntimeError ''generator raised StopIteration'' else e)"

text \<open>A \<^verbatim>\<open>for h in self.hooks\<close> loop that sends one notification to every hook.\<close>

definition notify ::
  "(hook_ref \<Rightarrow> ('a, 'v) event) \<Rightarrow> hook_ref list \<Rightarrow> ('a, 'v, 's) world \<Rightarrow> ('a, 'v, 's) world" where
  "notify ev hs w = fold (\<lambda>h w'. w'\<lparr>events := events w' @ [ev h]\<rparr>) hs w"

text \<open>A call of a lifecycle method on \<^verbatim>\<open>self.strategy\<close>.\<close>

definition strategy_call ::
  "('s \<Rightarrow> 's) \<Rightarrow> (strat_ref \<Rightarrow> ('a, 'v) event) \<Rightarrow> gen_ref \<Rightarrow> ('a, 'v, 's) world \<Rightarrow> ('a, 'v, 's) world" where
  "strategy_call method ev self w =
     (let s = strategy (gens w self) in
      w\<lparr>strats := (strats w)(s := method (strats w s)), events := events w @ [ev s]\<rparr>)"

text \<open>Lines 257-263: compilation, \<^verbatim>\<open>h.init\<close> for every hook, \<^verbatim>\<open>self.strategy.init()\<close>.\<close>

definition generate_begin ::
  "('a, 'v, 's) env \<Rightarrow> gen_ref \<Rightarrow> 'a \<Rightarrow> ('a, 'v, 's) world \<Rightarrow> (exn + unit) \<times> ('a, 'v, 's) world" where
  "generate_begin E self a w =
     (case compile_if_needed E self w of
        (Inl e, w1) \<Rightarrow> (Inl e, w1)
      | (Inr u, w1) \<Rightarrow>
          (Inr (), strategy_call (strategy_init E) Strategy_init self
                     (notify (\<lambda>h. Hook_init h a) (hooks (gens w1 self)) w1)))"

text \<open>Lines 265-268: \<^verbatim>\<open>h.init_run\<close> for every hook, \<^verbatim>\<open>self.strategy.init_run()\<close>.\<close>

definition generate_begin_run ::
  "('a, 'v, 's) env \<Rightarrow> gen_ref \<Rightarrow> 'a \<Rightarrow> ('a, 'v, 's) world \<Rightarrow> ('a, 'v, 's) world" where
  "generate_begin_run E self a w =
     strategy_call (strategy_init_run E) Strategy_init_run self
       (notify (\<lambda>h. Hook_init_run h a) (hooks (gens w self)) w)"

text \<open>Lines 275-278: \<^verbatim>\<open>self.strategy.finish_run()\<close>, \<^verbatim>\<open>h.finish_run\<close> for every hook.\<close>

definition generate_end_run ::
  "('a, 'v, 's) env \<Rightarrow> gen_ref \<Rightarrow> ('a, 'v, 's) world \<Rightarrow> ('a, 'v, 's) world" where
  "generate_end_run E self w =
     (let w1 = strategy_call (strategy_finish_run E) Strategy_finish_run self w in
      notify Hook_finish_run (hooks (gens w1 self)) w1)"

text \<open>Lines 280-283: \<^verbatim>\<open>self.strategy.finish()\<close>, \<^verbatim>\<open>h.finish\<close> for every hook.\<close>

definition generate_end ::
  "('a, 'v, 's) env \<Rightarrow> gen_ref \<Rightarrow> ('a, 'v, 's) world \<Rightarrow> ('a, 'v, 's) world" where
  "generate_end E self w =
     (let w1 = strategy_call (strategy_finish E) Strategy_finish self w in
      notify Hook_finish (hooks (gens w1 self)) w1)"

text \<open>
  The \<^verbatim>\<open>while\<close> loop from its head (line 264) to the next point where the iterator
  hands control back. A run that raises \<^verbatim>\<open>ExceptionAsContinue\<close> goes on to lines
  275-278 and round the loop again, within the same \<^verbatim>\<open>next\<close>; the strategy decides
  whether that ever ends, so the number of such rounds is bounded by the first
  argument, and \<open>None\<close> means the bound was reached.
\<close>

fun generate_loop ::
  "nat \<Rightarrow> ('a, 'v, 's) env \<Rightarrow> gen_ref \<Rightarrow> 'a \<Rightarrow> ('a, 'v, 's) world \<Rightarrow>
   ('v signal \<times> frame \<times> ('a, 'v, 's) world) option" where
  "generate_loop 0 E self a w = None"
| "generate_loop (Suc n) E self a w =
     (if strategy_is_finished E (strats w (strategy (gens w self)))
      then Some (StopIteration, Closed, generate_end E self w)
      else
        (case call_compiled_func E self a (generate_begin_run E self a w) of
           (Inr v, w2) \<Rightarrow> Some (Yield v, Suspended, w2)
         | (Inl e, w2) \<Rightarrow>
             if e = ExceptionAsContinue
             then generate_loop n E self a (generate_end_run E self w2)
             else Some (Raise (generator_raise e), Closed, w2)))"

text \<open>One \<^verbatim>\<open>next\<close> on the iterator returned by \<^verbatim>\<open>self.generate(*args, **kwargs)\<close>.\<close>

definition generate_next ::
  "nat \<Rightarrow> ('a, 'v, 's) env \<Rightarrow> gen_ref \<Rightarrow> 'a \<Rightarrow> frame \<Rightarrow> ('a, 'v, 's) world \<Rightarrow>
   ('v signal \<times> frame \<times> ('a, 'v, 's) world) option" where
  "generate_next n E self a fr w =
     (case fr of
        Created \<Rightarrow>
          (case generate_begin E self a w of
             (Inl e, w1) \<Rightarrow> Some (Raise (generator_raise e), Closed, w1)
           | (Inr u, w1) \<Rightarrow> generate_loop n E self a w1)
      | Suspended \<Rightarrow> generate_loop n E self a (generate_end_run E self w)
      | Closed \<Rightarrow> Some (StopIteration, Closed, w))"

text \<open>
  A consumer that calls \<^verbatim>\<open>next\<close> a given number of times and touches nothing in
  between: the signals it receives, and where the iterator and the process then are.
\<close>

fun pulls ::
  "nat \<Rightarrow> ('f \<Rightarrow> 'w \<Rightarrow> ('y signal \<times> 'f \<times> 'w) option) \<Rightarrow> 'f \<Rightarrow> 'w \<Rightarrow>
   ('y signal list \<times> 'f \<times> 'w) option" where
  "pulls 0 nxt fr w = Some ([], fr, w)"
| "pulls (Suc k) nxt fr w =
     (case nxt fr w of
        None \<Rightarrow> None
      | Some (s, fr', w') \<Rightarrow>
          (case pulls k nxt fr' w' of
             None \<Rightarrow> None
           | Some (ss, fr'', w'') \<Rightarrow> Some (s # ss, fr'', w'')))"

text \<open>
  How an iteration has ended, as far as its consumer has seen: the first signal that is
  not a value, if there is one.
\<close>

fun outcome :: "'y signal list \<Rightarrow> 'y signal option" where
  "outcome [] = None"
| "outcome (Yield y # ss) = outcome ss"
| "outcome (s # ss) = Some s"

section \<open>Tracing: \<^verbatim>\<open>Generator.trace\<close>\<close>

text \<open>
  \<^verbatim>\<open>trace\<close> is a generator function too. Once started it holds the tracer it created
  and the iterator of the \<^verbatim>\<open>generate\<close> it loops over.
\<close>

datatype trace_frame = Trace_created | Trace_running hook_ref frame | Trace_closed

text \<open>
  The \<^verbatim>\<open>for val in self.generate(...)\<close> loop of lines 302-303 up to the next
  \<^verbatim>\<open>yield\<close>, and line 305 when the inner iterator is exhausted.
\<close>

definition trace_resume ::
  "nat \<Rightarrow> ('a, 'v, 's) env \<Rightarrow> gen_ref \<Rightarrow> 'a \<Rightarrow> hook_ref \<Rightarrow> frame \<Rightarrow> ('a, 'v, 's) world \<Rightarrow>
   (('v \<times> 'v) signal \<times> trace_frame \<times> ('a, 'v, 's) world) option" where
  "trace_resume n E self a tracer fr w =
     (case generate_next n E self a fr w of
        None \<Rightarrow> None
      | Some (Yield val, fr', w') \<Rightarrow>
          Some (Yield (val, get_last_trace E tracer (events w')), Trace_running tracer fr', w')
      | Some (StopIteration, fr', w') \<Rightarrow>
          (case deregister_hook self tracer True w' of
             (Inl e, w'') \<Rightarrow> Some (Raise (generator_raise e), Trace_closed, w'')
           | (Inr u, w'') \<Rightarrow> Some (StopIteration, Trace_closed, w''))
      | Some (Raise e, fr', w') \<Rightarrow> Some (Raise (generator_raise e), Trace_closed, w'))"

text \<open>
  One \<^verbatim>\<open>next\<close> on the iterator returned by \<^verbatim>\<open>self.trace(*args, **kwargs)\<close>. The first
  one executes lines 300-301: \<^verbatim>\<open>DefaultTracer()\<close> is a new object, registered with the
  default \<^verbatim>\<open>as_group=True\<close>.
\<close>

definition trace_next ::
  "nat \<Rightarrow> ('a, 'v, 's) env \<Rightarrow> gen_ref \<Rightarrow> 'a \<Rightarrow> trace_frame \<Rightarrow> ('a, 'v, 's) world \<Rightarrow>
   (('v \<times> 'v) signal \<times> trace_frame \<times> ('a, 'v, 's) world) option" where
  "trace_next n E self a tf w =
     (case tf of
        Trace_created \<Rightarrow>
          (let tracer = fresh w; w0 = w\<lparr>fresh := Suc (fresh w)\<rparr> in
           case register_hooks self [tracer] True w0 of
             (Inl e, w1) \<Rightarrow> Some (Raise (generator_raise e), Trace_closed, w1)
           | (Inr u, w1) \<Rightarrow> trace_resume n E self a tracer Created w1)
      | Trace_running tracer fr \<Rightarrow> trace_resume n E self a tracer fr w
      | Trace_closed \<Rightarrow> Some (StopIteration, Trace_closed, w))"

section \<open>The lifecycle protocol\<close>

text \<open>
  The notifications that the claims about \<^verbatim>\<open>generate\<close> speak of, for a generator
  with the attributes \<open>G\<close> called on the arguments \<open>a\<close>: those that open an enumeration,
  those that open and close one run, and those that close the enumeration. The hooks
  are notified in registration order; the strategy is called after the hooks where a
  bracket opens and before them where it closes.
\<close>

definition init_events :: "generator \<Rightarrow> 'a \<Rightarrow> ('a, 'v) event list" where
  "init_events G a = map (\<lambda>h. Hook_init h a) (hooks G) @ [Strategy_init (strategy G)]"

definition init_run_events :: "generator \<Rightarrow> 'a \<Rightarrow> ('a, 'v) event list" where
  "init_run_events G a =
     map (\<lambda>h. Hook_init_run h a) (hooks G) @ [Strategy_init_run (strategy G)]"

definition finish_run_events :: "generator \<Rightarrow> ('a, 'v) event list" where
  "finish_run_events G = Strategy_finish_run (strategy G) # map Hook_finish_run (hooks G)"

definition finish_events :: "generator \<Rightarrow> ('a, 'v) event list" where
  "finish_events G = Strategy_finish (strategy G) # map Hook_finish (hooks G)"

text \<open>A run of the compiled function \<open>c\<close> that has been started but not closed.\<close>

definition open_run :: "generator \<Rightarrow> compiled \<Rightarrow> 'a \<Rightarrow> ('a, 'v) event list" where
  "open_run G c a = init_run_events G a @ [Run c a]"

text \<open>A run between its two brackets.\<close>

definition bracketed_run :: "generator \<Rightarrow> compiled \<Rightarrow> 'a \<Rightarrow> ('a, 'v) event list" where
  "bracketed_run G c a = open_run G c a @ finish_run_events G"

text \<open>
  The invariant of the cache as the spec words it: a compiled function that is present
  is the compilation of the generator's function against its present strategy and its
  present hook list.
\<close>

definition cache_current :: "('a, 'v, 's) world \<Rightarrow> gen_ref \<Rightarrow> bool" where
  "cache_current w g =
     (case compiled_func (gens w g) of
        None \<Rightarrow> True
      | Some c \<Rightarrow> c = Compiled g (func (gens w g)) (strategy (gens w g)) (hooks (gens w g)))"

section \<open>A client of the Generator interface\<close>

text \<open>
  The calls a client can make that read or write the cache: the three configuration
  methods, the direct call, and \<^verbatim>\<open>next\<close> on an iterator of \<^verbatim>\<open>generate\<close> that is in a
  given place (with the bound on the rounds of its loop).
\<close>

datatype 'a request =
    Set_strategy gen_ref strategy_arg bool
  | Register_hooks gen_ref "hook_ref list" bool
  | Deregister_hook gen_ref hook_ref bool
  | Call gen_ref 'a
  | Next nat gen_ref 'a frame

text \<open>
  The outcome for the client: the exception raised, if any, and the process afterwards;
  \<open>None\<close> when the call does not return within the bound.
\<close>

fun perform ::
  "('a, 'v, 's) env \<Rightarrow> 'a request \<Rightarrow> ('a, 'v, 's) world \<Rightarrow>
   ((exn + unit) \<times> ('a, 'v, 's) world) option" where
  "perform E (Set_strategy g arg as_group) w = Some (set_strategy E g arg as_group w)"
| "perform E (Register_hooks g hs as_group) w = Some (register_hooks g hs as_group w)"
| "perform E (Deregister_hook g h as_group) w = Some (deregister_hook g h as_group w)"
| "perform E (Call g a) w =
     (case Generator_call E g a w of
        (Inl e, w') \<Rightarrow> Some (Inl e, w')
      | (Inr v, w') \<Rightarrow> Some (Inr (), w'))"
| "perform E (Next n g a fr) w =
     (case generate_next n E g a fr w of
        None \<Rightarrow> None
      | Some (Raise e, fr', w') \<Rightarrow> Some (Inl e, w')
      | Some (Yield v, fr', w') \<Rightarrow> Some (Inr (), w')
      | Some (StopIteration, fr', w') \<Rightarrow> Some (Inr (), w'))"

text \<open>A client that makes one call after the other and goes on after an exception.\<close>

fun perform_all ::
  "('a, 'v, 's) env \<Rightarrow> 'a request list \<Rightarrow> ('a, 'v, 's) world \<Rightarrow> ('a, 'v, 's) world option" where
  "perform_all E [] w = Some w"
| "perform_all E (r # rs) w =
     (case perform E r w of None \<Rightarrow> None | Some (x, w') \<Rightarrow> perform_all E rs w')"

text \<open>The generator a configuration method is called on.\<close>

fun configures :: "'a request \<Rightarrow> gen_ref option" where
  "configures (Set_strategy g arg as_group) = Some g"
| "configures (Register_hooks g hs as_group) = Some g"
| "configures (Deregister_hook g h as_group) = Some g"
| "configures (Call g a) = None"
| "configures (Next n g a fr) = None"

text \<open>
  The calls that execute the compilation of lines 239-240 or 257-258 for a generator:
  its direct call and the first \<^verbatim>\<open>next\<close> of an iterator of its \<^verbatim>\<open>generate\<close>.
\<close>

fun compiles :: "'a request \<Rightarrow> gen_ref \<Rightarrow> bool" where
  "compiles (Call g a) g' = (g = g')"
| "compiles (Next n g a Created) g' = (g = g')"
| "compiles r g' = False"

text \<open>
  A step of the process that leaves every generator as it was or with an empty cache.
\<close>

definition cache_only_dropped :: "('a, 'v, 's) world \<Rightarrow> ('a, 'v, 's) world \<Rightarrow> bool" where
  "cache_only_dropped w w' =
     (\<forall>g. gens w' g = gens w g \<or> compiled_func (gens w' g) = None)"

section \<open>A concrete process\<close>

text \<open>
  A process on which the properties below are exercised. Arguments, values and strategy
  states are natural numbers. A strategy's state counts the runs that are left:
  \<^verbatim>\<open>init\<close> sets it to three, \<^verbatim>\<open>finish_run\<close> decrements it, and the strategy is
  finished at zero. A run at state two raises \<^verbatim>\<open>ExceptionAsContinue\<close>, a run on the
  argument 99 raises a ValueError, a run on the argument 98 raises \<^verbatim>\<open>StopIteration\<close>,
  and every other run returns the sum of the argument and the state.
\<close>

definition demo_env :: "(nat, nat, nat) env" where
  "demo_env =
     \<lparr>new_RandStrategy = 0, new_DfsStrategy = 0,
      strategy_init = (\<lambda>s. 3), strategy_is_finished = (\<lambda>s. s = 0),
      strategy_init_run = (\<lambda>s. s), strategy_finish_run = (\<lambda>s. s - 1),
      strategy_finish = (\<lambda>s. s),
      compile_error = (\<lambda>g f s hs. None),
      exec_func = (\<lambda>c a s. (if s = 2 then Inl ExceptionAsContinue
                             else if a = 99 then Inl (ValueError ''bad argument'')
                             else if a = 98 then Inl StopIteration_exn
                             else Inr (a + s), s)),
      get_last_trace = (\<lambda>t evs. length evs)\<rparr>"

text \<open>
  Generators 0 and 1 form the group \<open>G\<close> and share strategy 0; generator 0 has the hook
  7 registered, generator 1 has none and holds a compiled function. Every other
  generator is outside any group.
\<close>

definition demo_world :: "(nat, nat, nat) world" where
  "demo_world =
     \<lparr>gens = (\<lambda>g.
         if g = 0 then \<lparr>func = 0, strategy = 0, compiled_func = None, name = None,
                        group = Some ''G'', hooks = [7]\<rparr>
         else if g = 1 then \<lparr>func = 1, strategy = 0, compiled_func = Some (Compiled 1 1 0 []),
                        name = None, group = Some ''G'', hooks = []\<rparr>
         else \<lparr>func = g, strategy = 1, compiled_func = None, name = None,
                group = None, hooks = []\<rparr>),
      groups = [''G'' \<mapsto> [0, 1]],
      strats = (\<lambda>r. 0),
      fresh = 10,
      events = []\<rparr>"

text \<open>The same collaborators, with the randomized strategy's \<^verbatim>\<open>is_finished\<close>.\<close>

definition demo_rand_env :: "(nat, nat, nat) env" where
  "demo_rand_env = demo_env\<lparr>strategy_is_finished := RandStrategy_is_finished\<rparr>"

text \<open>The same collaborators, with a strategy that is finished as soon as it is initialised.\<close>

definition demo_done_env :: "(nat, nat, nat) env" where
  "demo_done_env = demo_env\<lparr>strategy_init := (\<lambda>s. 0)\<rparr>"

text \<open>
  The process in the middle of an enumeration by generator 0: its function is compiled,
  and every strategy is in the state \<open>s\<close>.
\<close>

definition demo_running :: "nat \<Rightarrow> (nat, nat, nat) world" where
  "demo_running s =
     demo_world\<lparr>gens := (gens demo_world)
                    (0 := (gens demo_world 0)\<lparr>compiled_func := Some (Compiled 0 0 0 [7])\<rparr>),
                 strats := (\<lambda>r. s)\<rparr>"

text \<open>
  A process for calls of operators: generator 0 has the hooks 7 and 8 registered,
  every other generator has none.
\<close>

definition demo_op_world :: "(nat call_args, nat, nat) world" where
  "demo_op_world =
     \<lparr>gens = (\<lambda>g. \<lparr>func = g, strategy = 0, compiled_func = None, name = None, group = None,
                    hooks = (if g = 0 then [7, 8] else [])\<rparr>),
      groups = Map.empty,
      strats = (\<lambda>r. 0),
      fresh = 10,
      events = []\<rparr>"

text \<open>
  An operator that returns the successor of its first positional argument and counts
  its own calls in the state of strategy 0.
\<close>

definition demo_op ::
  "nat call_args \<Rightarrow> (nat call_args, nat, nat) world \<Rightarrow> (exn + nat) \<times> (nat call_args, nat, nat) world" where
  "demo_op a w =
     (case args a of
        [] \<Rightarrow> (Inl (TypeError ''missing argument''), w)
      | x # xs \<Rightarrow> (Inr (Suc x), w\<lparr>strats := (strats w)(0 := Suc (strats w 0))\<rparr>))"

text \<open>
  An operator that does the same and, before it returns, registers the hook 9 on
  generator 0.
\<close>

definition demo_registering_op ::
  "nat call_args \<Rightarrow> (nat call_args, nat, nat) world \<Rightarrow> (exn + nat) \<times> (nat call_args, nat, nat) world" where
  "demo_registering_op a w =
     (case demo_op a w of
        (Inl e, w1) \<Rightarrow> (Inl e, w1)
      | (Inr v, w1) \<Rightarrow> (Inr v, snd (register_hooks 0 [9] False w1)))"

section \<open>Properties of \<^verbatim>\<open>compile_op\<close>\<close>

lemma for_each_before_op:
  "\<not> repeated_keyword [''generator'', ''op_name'', ''sid''] a \<Longrightarrow>
   for_each (\<lambda>h w'. before_op h a gen op_name sid w') hs w =
   (Inr (), w\<lparr>events := events w @ map (\<lambda>h. Hook_before_op h a gen op_name sid) hs\<rparr>)"
  by (induction hs arbitrary: w) (simp_all add: before_op_def)

lemma for_each_after_op:
  "\<not> repeated_keyword [''generator'', ''op_name'', ''sid'', ''retval''] a \<Longrightarrow>
   for_each (\<lambda>h w'. after_op h a gen op_name sid r w') hs w =
   (Inr (), w\<lparr>events := events w @ map (\<lambda>h. Hook_after_op h a gen op_name sid r) hs\<rparr>)"
  by (induction hs arbitrary: w) (simp_all add: after_op_def)

lemma for_each_before_op_clash:
  "repeated_keyword [''generator'', ''op_name'', ''sid''] a \<Longrightarrow> hs \<noteq> [] \<Longrightarrow>
   for_each (\<lambda>h w'. before_op h a gen op_name sid w') hs w =
   (Inl (TypeError ''got multiple values for keyword argument''), w)"
  by (cases hs) (simp_all add: before_op_def)

lemma repeated_keyword_mono:
  "\<not> repeated_keyword [''generator'', ''op_name'', ''sid'', ''retval''] a \<Longrightarrow>
   \<not> repeated_keyword [''generator'', ''op_name'', ''sid''] a"
  by (auto simp: repeated_keyword_def list_ex_iff)

lemma Create_op_neq: "Create_op gen op_name sid op hl \<noteq> op"
  by (induction op) auto

text \<open>
  C5. When the hook list is empty at the time of the call, \<^verbatim>\<open>compile_op\<close> returns
  the operator object it was given: the result is \<open>op\<close>, and it is not the closure
  \<^verbatim>\<open>create_op\<close> around \<open>op\<close>, which is a different object. For contrast, with a
  non-empty list the result is that closure and is not \<open>op\<close>.
\<close>

theorem compile_op_no_hooks:
  "(read_hooks hl w = [] \<longrightarrow>
      compile_op gen op_name sid op hl w = op \<and>
      compile_op gen op_name sid op hl w \<noteq> Create_op gen op_name sid op hl) \<and>
   (read_hooks hl w \<noteq> [] \<longrightarrow>
      compile_op gen op_name sid op hl w = Create_op gen op_name sid op hl \<and>
      compile_op gen op_name sid op hl w \<noteq> op)"
  using Create_op_neq[of gen op_name sid op hl] by (auto simp: compile_op_def)

theorem compile_op_no_hooks_witness:
  "read_hooks (Hooks_of 1) demo_op_world = [] \<and>
   compile_op 1 ''Select'' ''s1'' (Operator demo_op) (Hooks_of 1) demo_op_world = Operator demo_op \<and>
   compile_op 1 ''Select'' ''s1'' (Operator demo_op) (Hooks_of 1) demo_op_world \<noteq>
     Create_op 1 ''Select'' ''s1'' (Operator demo_op) (Hooks_of 1) \<and>
   read_hooks (Hooks_of 0) demo_op_world = [7, 8] \<and>
   compile_op 0 ''Select'' ''s1'' (Operator demo_op) (Hooks_of 0) demo_op_world =
     Create_op 0 ''Select'' ''s1'' (Operator demo_op) (Hooks_of 0) \<and>
   compile_op 0 ''Select'' ''s1'' (Operator demo_op) (Hooks_of 0) demo_op_world \<noteq> Operator demo_op"
proof -
  have e: "read_hooks (Hooks_of 1) demo_op_world = []" by code_simp
  have n: "read_hooks (Hooks_of 0) demo_op_world = [7, 8]" by code_simp
  have n': "read_hooks (Hooks_of 0) demo_op_world \<noteq> []" by (simp only: n) simp
  note t1 = mp[OF conjunct1[OF compile_op_no_hooks[where hl="Hooks_of 1" and w=demo_op_world
              and gen=1 and op_name="''Select''" and sid="''s1''" and op="Operator demo_op"]] e]
  note t2 = mp[OF conjunct2[OF compile_op_no_hooks[where hl="Hooks_of 0" and w=demo_op_world
              and gen=0 and op_name="''Select''" and sid="''s1''" and op="Operator demo_op"]] n']
  show ?thesis
    by (rule conjI[OF e conjI[OF conjunct1[OF t1] conjI[OF conjunct2[OF t1]
          conjI[OF n conjI[OF conjunct1[OF t2] conjunct2[OF t2]]]]]])
qed

text \<open>
  C4, as the claim states it, fails for some arguments: on generator 0 of the process
  for operator calls, which has two hooks, the closure called with a keyword argument
  named \<^verbatim>\<open>sid\<close> raises a TypeError at the first \<^verbatim>\<open>before_op\<close> call. No hook is notified,
  the operator, which on its own returns 6 for these arguments, is not invoked, and its
  value is not returned.
\<close>

theorem compile_op_hooks_order_counterexample:
  "read_hooks (Hooks_of 0) demo_op_world = [7, 8] \<and>
   repeated_keyword [''generator'', ''op_name'', ''sid''] (Call_args [5::nat] [(''sid'', 1)]) \<and>
   fst (demo_op (Call_args [5] [(''sid'', 1)]) demo_op_world) = Inr 6 \<and>
   fst (invoke (compile_op 0 ''Select'' ''s1'' (Operator demo_op) (Hooks_of 0) demo_op_world)
          (Call_args [5] [(''sid'', 1)]) demo_op_world) =
     Inl (TypeError ''got multiple values for keyword argument'') \<and>
   events (snd (invoke (compile_op 0 ''Select'' ''s1'' (Operator demo_op) (Hooks_of 0) demo_op_world)
          (Call_args [5] [(''sid'', 1)]) demo_op_world)) = [] \<and>
   strats (snd (invoke (compile_op 0 ''Select'' ''s1'' (Operator demo_op) (Hooks_of 0) demo_op_world)
          (Call_args [5] [(''sid'', 1)]) demo_op_world)) 0 = 0"
  by code_simp

text \<open>
  C4, amended. Let the hook list be non-empty when \<^verbatim>\<open>compile_op\<close> is called, and let
  the returned callable be invoked with arguments none of whose keyword names is
  \<^verbatim>\<open>generator\<close>, \<^verbatim>\<open>op_name\<close>, \<^verbatim>\<open>sid\<close> or \<^verbatim>\<open>retval\<close>. Then \<^verbatim>\<open>before_op\<close> of every hook
  of the list is called first, in list order, with these arguments, the generator, the
  operator name and the static id; the operator runs once, from the state so reached;
  if it returns \<open>r\<close>, \<^verbatim>\<open>after_op\<close> of every hook of the list as it is then (the closure
  holds the list object, which the operator may have changed) is called in list order with
  the same data and \<open>r\<close>, and \<open>r\<close> is returned. If instead a keyword argument is named
  \<^verbatim>\<open>generator\<close>, \<^verbatim>\<open>op_name\<close> or \<^verbatim>\<open>sid\<close> and the list is non-empty at the call, the call
  raises a TypeError and nothing has happened.
\<close>

theorem compile_op_hooks_order:
  "(read_hooks hl wc \<noteq> [] \<and>
    \<not> repeated_keyword [''generator'', ''op_name'', ''sid'', ''retval''] a \<and>
    invoke op a (w\<lparr>events := events w @
                     map (\<lambda>h. Hook_before_op h a gen op_name sid) (read_hooks hl w)\<rparr>) = (Inr r, w2) \<longrightarrow>
    invoke (compile_op gen op_name sid op hl wc) a w =
      (Inr r, w2\<lparr>events := events w2 @
                    map (\<lambda>h. Hook_after_op h a gen op_name sid r) (read_hooks hl w2)\<rparr>)) \<and>
   (read_hooks hl wc \<noteq> [] \<and> read_hooks hl w \<noteq> [] \<and>
    repeated_keyword [''generator'', ''op_name'', ''sid''] a \<longrightarrow>
    invoke (compile_op gen op_name sid op hl wc) a w =
      (Inl (TypeError ''got multiple values for keyword argument''), w))"
  by (simp add: compile_op_def for_each_before_op for_each_after_op repeated_keyword_mono
        for_each_before_op_clash)

theorem compile_op_hooks_order_witness:
  "read_hooks (Hooks_of 0) demo_op_world = [7, 8] \<and>
   \<not> repeated_keyword [''generator'', ''op_name'', ''sid'', ''retval'']
        (Call_args [5::nat] [(''x'', 1)]) \<and>
   fst (invoke (compile_op 0 ''Select'' ''s1'' (Operator demo_registering_op) (Hooks_of 0)
                  demo_op_world)
          (Call_args [5] [(''x'', 1)]) demo_op_world) = Inr 6 \<and>
   events (snd (invoke (compile_op 0 ''Select'' ''s1'' (Operator demo_registering_op) (Hooks_of 0)
                          demo_op_world)
                  (Call_args [5] [(''x'', 1)]) demo_op_world)) =
     [Hook_before_op 7 (Call_args [5] [(''x'', 1)]) 0 ''Select'' ''s1'',
      Hook_before_op 8 (Call_args [5] [(''x'', 1)]) 0 ''Select'' ''s1'',
      Hook_after_op 7 (Call_args [5] [(''x'', 1)]) 0 ''Select'' ''s1'' 6,
      Hook_after_op 8 (Call_args [5] [(''x'', 1)]) 0 ''Select'' ''s1'' 6,
      Hook_after_op 9 (Call_args [5] [(''x'', 1)]) 0 ''Select'' ''s1'' 6] \<and>
   strats (snd (invoke (compile_op 0 ''Select'' ''s1'' (Operator demo_registering_op) (Hooks_of 0)
                          demo_op_world)
                  (Call_args [5] [(''x'', 1)]) demo_op_world)) 0 = 1 \<and>
   repeated_keyword [''generator'', ''op_name'', ''sid''] (Call_args [5::nat] [(''sid'', 1)]) \<and>
   invoke (compile_op 0 ''Select'' ''s1'' (Operator demo_registering_op) (Hooks_of 0)
             demo_op_world)
     (Call_args [5] [(''sid'', 1)]) demo_op_world =
     (Inl (TypeError ''got multiple values for keyword argument''), demo_op_world)"
proof -
  let ?a = "Call_args [5] [(''x'', 1::nat)]"
  let ?b = "Call_args [5] [(''sid'', 1::nat)]"
  let ?hl = "Hooks_of 0"
  let ?op = "Operator demo_registering_op"
  let ?w1 = "demo_op_world\<lparr>events := events demo_op_world @
               map (\<lambda>h. Hook_before_op h ?a 0 ''Select'' ''s1'') (read_hooks ?hl demo_op_world)\<rparr>"
  let ?w2 = "snd (invoke ?op ?a ?w1)"
  have n: "read_hooks ?hl demo_op_world = [7, 8]" by code_simp
  have n': "read_hooks ?hl demo_op_world \<noteq> []" by (simp only: n) simp
  have k: "\<not> repeated_keyword [''generator'', ''op_name'', ''sid'', ''retval''] ?a" by code_simp
  have kb: "repeated_keyword [''generator'', ''op_name'', ''sid''] ?b" by code_simp
  have f: "fst (invoke ?op ?a ?w1) = Inr 6" by code_simp
  have run: "invoke ?op ?a ?w1 = (Inr 6, ?w2)"
    by (rule prod_eqI) (simp_all only: f fst_conv snd_conv)
  note t1 = mp[OF conjunct1[OF compile_op_hooks_order[where hl="?hl" and wc=demo_op_world
              and w=demo_op_world and a="?a" and gen=0 and op_name="''Select''" and sid="''s1''"
              and op="?op" and r=6 and ?w2.0="?w2"]] conjI[OF n' conjI[OF k run]]]
  note t2 = mp[OF conjunct2[OF compile_op_hooks_order[where hl="?hl" and wc=demo_op_world
              and w=demo_op_world and a="?b" and gen=0 and op_name="''Select''" and sid="''s1''"
              and op="?op"]] conjI[OF n' conjI[OF n' kb]]]
  have ev: "events ?w2 @ map (\<lambda>h. Hook_after_op h ?a 0 ''Select'' ''s1'' 6) (read_hooks ?hl ?w2) =
     [Hook_before_op 7 ?a 0 ''Select'' ''s1'', Hook_before_op 8 ?a 0 ''Select'' ''s1'',
      Hook_after_op 7 ?a 0 ''Select'' ''s1'' 6, Hook_after_op 8 ?a 0 ''Select'' ''s1'' 6,
      Hook_after_op 9 ?a 0 ''Select'' ''s1'' 6]" by code_simp
  have st: "strats ?w2 0 = 1" by code_simp
  have c3: "fst (invoke (compile_op 0 ''Select'' ''s1'' ?op ?hl demo_op_world) ?a demo_op_world) = Inr 6"
    by (simp only: t1 fst_conv)
  have c4: "events (snd (invoke (compile_op 0 ''Select'' ''s1'' ?op ?hl demo_op_world) ?a demo_op_world)) =
     [Hook_before_op 7 ?a 0 ''Select'' ''s1'', Hook_before_op 8 ?a 0 ''Select'' ''s1'',
      Hook_after_op 7 ?a 0 ''Select'' ''s1'' 6, Hook_after_op 8 ?a 0 ''Select'' ''s1'' 6,
      Hook_after_op 9 ?a 0 ''Select'' ''s1'' 6]"
    unfolding t1 snd_conv using ev by simp
  have c5: "strats (snd (invoke (compile_op 0 ''Select'' ''s1'' ?op ?hl demo_op_world) ?a demo_op_world)) 0 = 1"
    unfolding t1 snd_conv using st by simp
  show ?thesis
    by (rule conjI[OF n conjI[OF k conjI[OF c3 conjI[OF c4 conjI[OF c5 conjI[OF kb t2]]]]]])
qed

section \<open>Properties of the configuration methods\<close>

lemma make_strategy_frame:
  "make_strategy E arg w = (x, w1) \<Longrightarrow>
     gens w1 = gens w \<and> groups w1 = groups w \<and> events w1 = events w"
  by (auto simp: make_strategy_def new_strategy_def split: strategy_arg.splits if_splits)

lemma for_each_set_strategy:
  "for_each (\<lambda>g w'. if g \<noteq> self
                     then set_strategy_self E g (Instance (strategy (gens w' self))) w'
                     else (Inr (), w')) ms w =
   (Inr (), w\<lparr>gens := (\<lambda>x. if x \<in> set ms \<and> x \<noteq> self
                            then (gens w x)\<lparr>strategy := strategy (gens w self), compiled_func := None\<rparr>
                            else gens w x)\<rparr>)"
proof (induction ms arbitrary: w)
  case Nil
  then show ?case by simp
next
  case (Cons m ms)
  show ?case
  proof (cases "m = self")
    case True
    then show ?thesis
      by (simp add: Cons.IH)
         (rule arg_cong[where f="\<lambda>f. w\<lparr>gens := f\<rparr>"], auto simp: fun_eq_iff)
  next
    case False
    then show ?thesis
      by (simp add: Cons.IH set_strategy_self_def make_strategy_def)
         (rule arg_cong[where f="\<lambda>f. w\<lparr>gens := f\<rparr>"], auto simp: fun_eq_iff)
  qed
qed

lemma for_each_register_hooks:
  "distinct ms \<Longrightarrow>
   for_each (\<lambda>g w'. if g \<noteq> self then register_hooks_self g hs w' else (Inr (), w')) ms w =
   (Inr (), w\<lparr>gens := (\<lambda>x. if x \<in> set ms \<and> x \<noteq> self
                            then (gens w x)\<lparr>compiled_func := None, hooks := hooks (gens w x) @ hs\<rparr>
                            else gens w x)\<rparr>)"
proof (induction ms arbitrary: w)
  case Nil
  then show ?case by simp
next
  case (Cons m ms)
  show ?case
  proof (cases "m = self")
    case True
    with Cons show ?thesis
      by simp (rule arg_cong[where f="\<lambda>f. w\<lparr>gens := f\<rparr>"], auto simp: fun_eq_iff)
  next
    case False
    with Cons show ?thesis
      by (simp add: register_hooks_self_def)
         (rule arg_cong[where f="\<lambda>f. w\<lparr>gens := f\<rparr>"], auto simp: fun_eq_iff)
  qed
qed

lemma for_each_deregister_hook_ok:
  "distinct ms \<Longrightarrow> \<forall>g\<in>set ms. g \<noteq> self \<longrightarrow> hook \<in> set (hooks (gens w g)) \<Longrightarrow>
   for_each (\<lambda>g w'. if g \<noteq> self then deregister_hook_self g hook w' else (Inr (), w')) ms w =
   (Inr (), w\<lparr>gens := (\<lambda>x. if x \<in> set ms \<and> x \<noteq> self
                            then (gens w x)\<lparr>compiled_func := None, hooks := remove1 hook (hooks (gens w x))\<rparr>
                            else gens w x)\<rparr>)"
proof (induction ms arbitrary: w)
  case Nil
  then show ?case by simp
next
  case (Cons m ms)
  show ?case
  proof (cases "m = self")
    case True
    with Cons show ?thesis
      by simp (rule arg_cong[where f="\<lambda>f. w\<lparr>gens := f\<rparr>"], auto simp: fun_eq_iff)
  next
    case False
    with Cons show ?thesis
      by (simp add: deregister_hook_self_def list_all_iff)
         (rule arg_cong[where f="\<lambda>f. w\<lparr>gens := f\<rparr>"], auto simp: fun_eq_iff)
  qed
qed

lemma for_each_deregister_hook_fails:
  "distinct ms \<Longrightarrow> \<exists>g\<in>set ms. g \<noteq> self \<and> hook \<notin> set (hooks (gens w g)) \<Longrightarrow>
   fst (for_each (\<lambda>g w'. if g \<noteq> self then deregister_hook_self g hook w' else (Inr (), w')) ms w) =
   Inl (ValueError ''Hook was not registered.'')"
proof (induction ms arbitrary: w)
  case Nil
  then show ?case by simp
next
  case (Cons m ms)
  show ?case
  proof (cases "m \<noteq> self \<and> hook \<notin> set (hooks (gens w m))")
    case True
    then show ?thesis by (simp add: deregister_hook_self_def list_all_iff)
  next
    case False
    with Cons.prems have ex: "\<exists>g\<in>set ms. g \<noteq> self \<and> hook \<notin> set (hooks (gens w g))" by auto
    show ?thesis
    proof (cases "m = self")
      case True
      with Cons ex show ?thesis by simp
    next
      case ne: False
      with False have hin: "hook \<in> set (hooks (gens w m))" by simp
      let ?w1 = "w\<lparr>gens := (gens w)(m := (gens w m)\<lparr>compiled_func := None,
                        hooks := remove1 hook (hooks (gens w m))\<rparr>)\<rparr>"
      from ex Cons.prems(1) have ex1: "\<exists>g\<in>set ms. g \<noteq> self \<and> hook \<notin> set (hooks (gens ?w1 g))"
        by auto
      from Cons.prems(1) have d: "distinct ms" by simp
      show ?thesis using ne hin Cons.IH[OF d ex1]
        by (simp add: deregister_hook_self_def list_all_iff)
    qed
  qed
qed

lemma set_strategy_self_ok:
  "make_strategy E arg w = (Inr r, w1) \<Longrightarrow>
   set_strategy_self E self arg w =
     (Inr (), w1\<lparr>gens := (gens w)(self := (gens w self)\<lparr>strategy := r, compiled_func := None\<rparr>)\<rparr>)"
  by (frule make_strategy_frame) (simp add: set_strategy_self_def)

text \<open>
  C6. Let \<open>self\<close> belong to a registered group with members \<open>ms\<close>, and let the
  strategy argument resolve to the Strategy object \<open>r\<close>. With \<^verbatim>\<open>as_group=True\<close>,
  \<^verbatim>\<open>set_strategy\<close> succeeds and leaves every member of the group, \<open>self\<close> included, with
  strategy \<open>r\<close> and an empty cache and otherwise as it was, and every generator outside
  the group untouched. With \<^verbatim>\<open>as_group=False\<close> it succeeds, changes the strategy and
  the cache of \<open>self\<close> in the same way, and leaves every other generator untouched.
\<close>

theorem set_strategy_group:
  assumes grp: "group (gens w self) = Some n" and reg: "groups w n = Some ms"
    and mk: "make_strategy E arg w = (Inr r, w1)"
  shows "fst (set_strategy E self arg True w) = Inr () \<and>
         (\<forall>g. g \<in> set ms \<or> g = self \<longrightarrow>
              gens (snd (set_strategy E self arg True w)) g =
              (gens w g)\<lparr>strategy := r, compiled_func := None\<rparr>) \<and>
         (\<forall>g. g \<notin> set ms \<and> g \<noteq> self \<longrightarrow>
              gens (snd (set_strategy E self arg True w)) g = gens w g) \<and>
         fst (set_strategy E self arg False w) = Inr () \<and>
         gens (snd (set_strategy E self arg False w)) self =
           (gens w self)\<lparr>strategy := r, compiled_func := None\<rparr> \<and>
         (\<forall>g. g \<noteq> self \<longrightarrow> gens (snd (set_strategy E self arg False w)) g = gens w g)"
proof -
  let ?w2 = "w1\<lparr>gens := (gens w)(self := (gens w self)\<lparr>strategy := r, compiled_func := None\<rparr>)\<rparr>"
  have fr: "gens w1 = gens w" "groups w1 = groups w"
    using make_strategy_frame[OF mk] by simp_all
  have self: "set_strategy_self E self arg w = (Inr (), ?w2)"
    by (rule set_strategy_self_ok[OF mk])
  have loc: "set_strategy E self arg False w = (Inr (), ?w2)"
    using self grp by (simp add: set_strategy_def for_group_def)
  have grp2: "group (gens ?w2 self) = Some n" "groups ?w2 n = Some ms"
    using grp reg fr by simp_all
  have grpd: "set_strategy E self arg True w =
      (Inr (), ?w2\<lparr>gens := (\<lambda>x. if x \<in> set ms \<and> x \<noteq> self
                 then (gens ?w2 x)\<lparr>strategy := strategy (gens ?w2 self), compiled_func := None\<rparr>
                 else gens ?w2 x)\<rparr>)"
    unfolding set_strategy_def self
    by (simp only: prod.case sum.case for_group_def grp2 option.case if_True
          get_group_by_name_def for_each_set_strategy)
  show ?thesis
    unfolding grpd loc by auto
qed

theorem set_strategy_group_witness:
  "group (gens demo_world 0) = Some ''G'' \<and> groups demo_world ''G'' = Some [0, 1] \<and>
   make_strategy demo_env (Instance 5) demo_world = (Inr 5, demo_world) \<and>
   fst (set_strategy demo_env 0 (Instance 5) True demo_world) = Inr () \<and>
   strategy (gens (snd (set_strategy demo_env 0 (Instance 5) True demo_world)) 1) = 5 \<and>
   compiled_func (gens (snd (set_strategy demo_env 0 (Instance 5) True demo_world)) 1) = None \<and>
   hooks (gens (snd (set_strategy demo_env 0 (Instance 5) True demo_world)) 0) = [7] \<and>
   strategy (gens (snd (set_strategy demo_env 0 (Instance 5) True demo_world)) 2) = 1 \<and>
   strategy (gens (snd (set_strategy demo_env 0 (Instance 5) False demo_world)) 0) = 5 \<and>
   strategy (gens (snd (set_strategy demo_env 0 (Instance 5) False demo_world)) 1) = 0 \<and>
   compiled_func (gens (snd (set_strategy demo_env 0 (Instance 5) False demo_world)) 1)
     = Some (Compiled 1 1 0 [])"
proof -
  have h1: "group (gens demo_world 0) = Some ''G''" by (simp add: demo_world_def)
  have h2: "groups demo_world ''G'' = Some [0, 1]" by (simp add: demo_world_def)
  have h3: "make_strategy demo_env (Instance 5) demo_world = (Inr 5, demo_world)"
    by (simp add: make_strategy_def)
  note t = set_strategy_group[OF h1 h2 h3]
  have g0: "gens demo_world 0 = \<lparr>func = 0, strategy = 0, compiled_func = None, name = None,
                        group = Some ''G'', hooks = [7]\<rparr>"
    and g1: "gens demo_world 1 = \<lparr>func = 1, strategy = 0, compiled_func = Some (Compiled 1 1 0 []),
                        name = None, group = Some ''G'', hooks = []\<rparr>"
    and g2: "gens demo_world 2 = \<lparr>func = 2, strategy = 1, compiled_func = None, name = None,
                group = None, hooks = []\<rparr>"
    by (simp_all add: demo_world_def)
  show ?thesis using h1 h2 h3 t g0 g1 g2 by simp
qed

text \<open>
  C8, as the claim states it, fails: generator 0 of the concrete process has the hook 7
  in its hook list, and \<^verbatim>\<open>deregister_hook\<close> with the default \<^verbatim>\<open>as_group=True\<close> raises
  all the same, from the nested call on generator 1, which never had the hook.
\<close>

theorem deregister_hook_raises_counterexample:
  "7 \<in> set (hooks (gens demo_world 0)) \<and>
   fst (deregister_hook 0 7 True demo_world) = Inl (ValueError ''Hook was not registered.'')"
  by (simp add: demo_world_def deregister_hook_def deregister_hook_self_def for_group_def
        get_group_by_name_def)

text \<open>
  C8, amended. Let the group of \<open>self\<close>, if it has one, be registered with distinct
  members. If the hook is not in the hook list of \<open>self\<close>, \<^verbatim>\<open>deregister_hook\<close> raises
  \<^verbatim>\<open>ValueError("Hook was not registered.")\<close> at once and changes nothing. With
  \<^verbatim>\<open>as_group=False\<close> it raises exactly when the hook is not in the hook list of
  \<open>self\<close>. In general it raises exactly when the hook is missing from the hook list of
  \<open>self\<close> or, under \<^verbatim>\<open>as_group=True\<close>, from the hook list of another member of the group
  of \<open>self\<close>; and whatever it raises is that ValueError.
\<close>

theorem deregister_hook_raises:
  assumes reg: "\<forall>n. group (gens w self) = Some n \<longrightarrow> (\<exists>ms. groups w n = Some ms \<and> distinct ms)"
  shows "(hook \<notin> set (hooks (gens w self)) \<longrightarrow>
            deregister_hook self hook as_group w = (Inl (ValueError ''Hook was not registered.''), w)) \<and>
         (isl (fst (deregister_hook self hook False w)) \<longleftrightarrow> hook \<notin> set (hooks (gens w self))) \<and>
         (isl (fst (deregister_hook self hook as_group w)) \<longleftrightarrow>
            hook \<notin> set (hooks (gens w self)) \<or>
            (as_group \<and> (\<exists>n ms. group (gens w self) = Some n \<and> groups w n = Some ms \<and>
               (\<exists>g\<in>set ms. g \<noteq> self \<and> hook \<notin> set (hooks (gens w g)))))) \<and>
         (isl (fst (deregister_hook self hook as_group w)) \<longrightarrow>
            fst (deregister_hook self hook as_group w) = Inl (ValueError ''Hook was not registered.''))"
proof (cases "hook \<in> set (hooks (gens w self))")
  case False
  then have "deregister_hook self hook ag w = (Inl (ValueError ''Hook was not registered.''), w)" for ag
    by (simp add: deregister_hook_def deregister_hook_self_def list_all_iff)
  with False show ?thesis by simp
next
  case True
  let ?w1 = "w\<lparr>gens := (gens w)(self := (gens w self)\<lparr>compiled_func := None,
                        hooks := remove1 hook (hooks (gens w self))\<rparr>)\<rparr>"
  let ?b = "\<lambda>g w'. if g \<noteq> self then deregister_hook_self g hook w' else (Inr (), w')"
  have self: "deregister_hook_self self hook w = (Inr (), ?w1)"
    using True by (simp add: deregister_hook_self_def list_all_iff)
  have loc: "deregister_hook self hook False w = (Inr (), ?w1)"
    by (simp add: deregister_hook_def self for_group_def split: option.splits)
  show ?thesis
  proof (cases "as_group \<and> group (gens w self) \<noteq> None")
    case False
    then have "deregister_hook self hook as_group w = (Inr (), ?w1)"
      by (auto simp: deregister_hook_def self for_group_def split: option.splits)
    with True loc False show ?thesis by auto
  next
    case ag: True
    then obtain n where n: "group (gens w self) = Some n" by auto
    with reg obtain ms where ms: "groups w n = Some ms" "distinct ms" by auto
    have run: "deregister_hook self hook as_group w = for_each ?b ms ?w1"
      using ag n ms by (simp add: deregister_hook_def self for_group_def get_group_by_name_def)
    show ?thesis
    proof (cases "\<exists>g\<in>set ms. g \<noteq> self \<and> hook \<notin> set (hooks (gens w g))")
      case bad: True
      then have "\<exists>g\<in>set ms. g \<noteq> self \<and> hook \<notin> set (hooks (gens ?w1 g))" by auto
      from for_each_deregister_hook_fails[OF ms(2) this]
      have "fst (deregister_hook self hook as_group w) = Inl (ValueError ''Hook was not registered.'')"
        by (simp add: run)
      with True loc ag n ms bad show ?thesis by auto
    next
      case good: False
      then have "\<forall>g\<in>set ms. g \<noteq> self \<longrightarrow> hook \<in> set (hooks (gens ?w1 g))" by auto
      from for_each_deregister_hook_ok[OF ms(2) this]
      have "fst (deregister_hook self hook as_group w) = Inr ()"
        by (simp add: run)
      with True loc ag n ms good show ?thesis by auto
    qed
  qed
qed

theorem deregister_hook_raises_witness:
  "group (gens demo_world 1) = Some ''G'' \<and> groups demo_world ''G'' = Some [0, 1] \<and>
   7 \<notin> set (hooks (gens demo_world 1)) \<and>
   deregister_hook 1 7 True demo_world = (Inl (ValueError ''Hook was not registered.''), demo_world) \<and>
   isl (fst (deregister_hook 1 7 False demo_world)) \<and>
   isl (fst (deregister_hook 1 7 True demo_world))"
proof -
  have h: "\<forall>n. group (gens demo_world 1) = Some n \<longrightarrow>
             (\<exists>ms. groups demo_world n = Some ms \<and> distinct ms)"
    by (simp add: demo_world_def)
  have m: "7 \<notin> set (hooks (gens demo_world 1))" by (simp add: demo_world_def)
  note t = deregister_hook_raises[OF h, of 7 True]
  have a: "deregister_hook 1 7 True demo_world =
             (Inl (ValueError ''Hook was not registered.''), demo_world)"
    using conjunct1[OF t] m by (rule mp)
  have b: "isl (fst (deregister_hook 1 7 False demo_world))"
    using conjunct1[OF conjunct2[OF t]] m by (rule iffD2)
  have c: "isl (fst (deregister_hook 1 7 True demo_world))"
    by (simp only: a fst_conv sum.disc)
  have g: "group (gens demo_world 1) = Some ''G''" and r: "groups demo_world ''G'' = Some [0, 1]"
    by (simp_all add: demo_world_def)
  show ?thesis by (rule conjI[OF g conjI[OF r conjI[OF m conjI[OF a conjI[OF b c]]]]])
qed

section \<open>Properties of the randomized strategy\<close>

lemma generate_loop_never_stops:
  assumes "\<And>s. \<not> strategy_is_finished E s"
  shows "generate_loop n E self a w \<noteq> Some (StopIteration, fr', w')"
proof (induction n arbitrary: w)
  case 0
  then show ?case by simp
next
  case (Suc n)
  then show ?case
    using assms by (auto split: prod.splits sum.splits)
qed

text \<open>
  C7. \<^verbatim>\<open>RandStrategy.is_finished\<close> returns False on every call. On a non-empty domain,
  \<^verbatim>\<open>Select\<close> returns the element at the index that the random number generator
  draws below the length of the domain, which is an element of the domain. The pick is
  as uniform as the draw: of the equally likely draws below the length, the number of
  those that make \<^verbatim>\<open>Select\<close> return \<open>x\<close> is the number of occurrences of \<open>x\<close> in the
  domain. And under a strategy with this \<^verbatim>\<open>is_finished\<close>, no \<^verbatim>\<open>next\<close> on an
  enumeration that is not closed ends it with StopIteration.
\<close>

theorem RandStrategy_select:
  "RandStrategy_is_finished s = False \<and>
   (domain \<noteq> [] \<and> randbelow (length domain) < length domain \<longrightarrow>
      RandStrategy_Select randbelow s domain = Inr (domain ! randbelow (length domain)) \<and>
      domain ! randbelow (length domain) \<in> set domain) \<and>
   (domain \<noteq> [] \<longrightarrow>
      card {i. i < length domain \<and> RandStrategy_Select (\<lambda>n. i) s domain = Inr x}
        = count_list domain x) \<and>
   (strategy_is_finished E = RandStrategy_is_finished \<and> fr \<noteq> Closed \<longrightarrow>
      generate_next n E self a fr w \<noteq> Some (StopIteration, fr', w'))"
proof -
  have c: "card {i. i < length domain \<and> RandStrategy_Select (\<lambda>n. i) s domain = Inr x}
             = count_list domain x" if "domain \<noteq> []"
  proof -
    have "{i. i < length domain \<and> RandStrategy_Select (\<lambda>n. i) s domain = Inr x}
            = {i. i < length domain \<and> x = domain ! i}"
      using that by (auto simp: RandStrategy_Select_def random_choice_def)
    then show ?thesis
      by (simp add: count_list_eq_length_filter length_filter_conv_card)
  qed
  have d: "generate_next n E self a fr w \<noteq> Some (StopIteration, fr', w')"
    if "strategy_is_finished E = RandStrategy_is_finished" "fr \<noteq> Closed"
  proof -
    have nf: "\<And>s. \<not> strategy_is_finished E s"
      using that(1) by (simp add: RandStrategy_is_finished_def)
    show ?thesis
      using that(2) generate_loop_never_stops[OF nf]
      by (cases fr) (auto simp: generate_next_def split: prod.splits sum.splits)
  qed
  show ?thesis
    using c d by (auto simp: RandStrategy_is_finished_def RandStrategy_Select_def random_choice_def)
qed


theorem RandStrategy_select_witness:
  "[10, 20, 30] \<noteq> ([] :: nat list) \<and>
   RandStrategy_Select (\<lambda>n. 1) (0 :: nat) [10, 20, 30 :: nat] = Inr 20 \<and>
   card {i. i < length [10, 20, 30 :: nat] \<and>
            RandStrategy_Select (\<lambda>n. i) (0 :: nat) [10, 20, 30 :: nat] = Inr 20} = 1 \<and>
   strategy_is_finished demo_rand_env = RandStrategy_is_finished \<and>
   generate_next 3 demo_rand_env 0 5 Created demo_world \<noteq> Some (StopIteration, Closed, demo_world)"
proof -
  have e: "strategy_is_finished demo_rand_env = RandStrategy_is_finished"
    by (simp add: demo_rand_env_def)
  note t = RandStrategy_select[where s="0::nat" and domain="[10, 20, 30 :: nat]"
      and randbelow="\<lambda>n. 1" and x=20 and E=demo_rand_env and fr=Created and n=3 and self=0
      and a=5 and w=demo_world and fr'=Closed and w'=demo_world]
  have a: "RandStrategy_Select (\<lambda>n. 1) (0 :: nat) [10, 20, 30 :: nat] = Inr 20"
    using conjunct1[OF conjunct2[OF t]] by simp
  have b: "card {i. i < length [10, 20, 30 :: nat] \<and>
            RandStrategy_Select (\<lambda>n. i) (0 :: nat) [10, 20, 30 :: nat] = Inr 20} = 1"
    using conjunct1[OF conjunct2[OF conjunct2[OF t]]] by simp
  have c: "generate_next 3 demo_rand_env 0 5 Created demo_world
             \<noteq> Some (StopIteration, Closed, demo_world)"
    by (rule mp[OF conjunct2[OF conjunct2[OF conjunct2[OF t]]]]) (simp add: e)
  have d: "[10, 20, 30] \<noteq> ([] :: nat list)" by simp
  show ?thesis by (rule conjI[OF d conjI[OF a conjI[OF b conjI[OF e c]]]])
qed

section \<open>Properties of the enumeration\<close>

lemma generator_raise_skip [simp]:
  "generator_raise e = ExceptionAsContinue \<longleftrightarrow> e = ExceptionAsContinue"
  by (simp add: generator_raise_def)

lemma generator_raise_other:
  "e \<noteq> StopIteration_exn \<Longrightarrow> generator_raise e = e"
  "generator_raise StopIteration_exn = RuntimeError ''generator raised StopIteration''"
  by (simp_all add: generator_raise_def)

lemma notify_eq: "notify ev hs w = w\<lparr>events := events w @ map ev hs\<rparr>"
  by (induction hs arbitrary: w) (simp_all add: notify_def)

lemma generate_begin_run_proj:
  "gens (generate_begin_run E self a w) = gens w"
  "groups (generate_begin_run E self a w) = groups w"
  "fresh (generate_begin_run E self a w) = fresh w"
  "events (generate_begin_run E self a w) = events w @ init_run_events (gens w self) a"
  "strats (generate_begin_run E self a w) =
     (strats w)(strategy (gens w self) := strategy_init_run E (strats w (strategy (gens w self))))"
  by (simp_all add: generate_begin_run_def strategy_call_def notify_eq init_run_events_def Let_def)

lemma generate_end_run_proj:
  "gens (generate_end_run E self w) = gens w"
  "groups (generate_end_run E self w) = groups w"
  "fresh (generate_end_run E self w) = fresh w"
  "events (generate_end_run E self w) = events w @ finish_run_events (gens w self)"
  "strats (generate_end_run E self w) =
     (strats w)(strategy (gens w self) := strategy_finish_run E (strats w (strategy (gens w self))))"
  by (simp_all add: generate_end_run_def strategy_call_def notify_eq finish_run_events_def Let_def)

lemma generate_end_proj:
  "gens (generate_end E self w) = gens w"
  "groups (generate_end E self w) = groups w"
  "fresh (generate_end E self w) = fresh w"
  "events (generate_end E self w) = events w @ finish_events (gens w self)"
  "strats (generate_end E self w) =
     (strats w)(strategy (gens w self) := strategy_finish E (strats w (strategy (gens w self))))"
  by (simp_all add: generate_end_def strategy_call_def notify_eq finish_events_def Let_def)

lemma call_compiled_func_frame:
  "call_compiled_func E self a w = (r, w') \<Longrightarrow>
     gens w' = gens w \<and> groups w' = groups w \<and> fresh w' = fresh w"
  by (auto simp: call_compiled_func_def split: option.splits compiled.splits prod.splits)

lemma call_compiled_func_events:
  "compiled_func (gens w self) = Some c \<Longrightarrow> call_compiled_func E self a w = (r, w') \<Longrightarrow>
     events w' = events w @ [Run c a]"
  by (auto simp: call_compiled_func_def split: option.splits compiled.splits prod.splits)

lemma compile_if_needed_frame:
  "compile_if_needed E self w = (r, w') \<Longrightarrow>
     groups w' = groups w \<and> fresh w' = fresh w \<and> events w' = events w \<and> strats w' = strats w \<and>
     (\<forall>g. g \<noteq> self \<longrightarrow> gens w' g = gens w g) \<and>
     (\<forall>g. func (gens w' g) = func (gens w g) \<and> strategy (gens w' g) = strategy (gens w g) \<and>
          hooks (gens w' g) = hooks (gens w g) \<and> group (gens w' g) = group (gens w g) \<and>
          name (gens w' g) = name (gens w g))"
  by (auto simp: compile_if_needed_def split: if_splits sum.splits)

lemma compile_if_needed_ok:
  "compile_if_needed E self w = (Inr u, w') \<Longrightarrow> compiled_func (gens w' self) \<noteq> None"
  by (auto simp: compile_if_needed_def split: if_splits sum.splits)

lemma generate_loop_frame:
  "generate_loop n E self a w = Some (sig, fr, w') \<Longrightarrow>
     gens w' = gens w \<and> groups w' = groups w \<and> fresh w' = fresh w"
proof (induction n arbitrary: w)
  case 0
  then show ?case by simp
next
  case (Suc n)
  obtain r w2 where run: "call_compiled_func E self a (generate_begin_run E self a w) = (r, w2)"
    by (cases "call_compiled_func E self a (generate_begin_run E self a w)")
  have f2: "gens w2 = gens w \<and> groups w2 = groups w \<and> fresh w2 = fresh w"
    using call_compiled_func_frame[OF run] by (simp add: generate_begin_run_proj)
  show ?case
  proof (cases "strategy_is_finished E (strats w (strategy (gens w self)))")
    case True
    with Suc.prems show ?thesis by (auto simp: generate_end_proj)
  next
    case False
    show ?thesis
    proof (cases r)
      case (Inr v)
      with False run Suc.prems f2 show ?thesis by auto
    next
      case (Inl e)
      show ?thesis
      proof (cases "e = ExceptionAsContinue")
        case True
        with False run Inl Suc.prems
        have "generate_loop n E self a (generate_end_run E self w2) = Some (sig, fr, w')" by simp
        from Suc.IH[OF this] f2 show ?thesis by (simp add: generate_end_run_proj)
      next
        case ne: False
        with False run Inl Suc.prems f2 show ?thesis by auto
      qed
    qed
  qed
qed


lemma run_events:
  assumes c: "compiled_func (gens w self) = Some c"
    and run: "call_compiled_func E self a (generate_begin_run E self a w) = (r, w2)"
  shows "events w2 = events w @ open_run (gens w self) c a"
    and "gens w2 = gens w" and "groups w2 = groups w" and "fresh w2 = fresh w"
proof -
  have "compiled_func (gens (generate_begin_run E self a w) self) = Some c"
    using c by (simp add: generate_begin_run_proj)
  from call_compiled_func_events[OF this run]
  show "events w2 = events w @ open_run (gens w self) c a"
    by (simp add: generate_begin_run_proj open_run_def)
  show "gens w2 = gens w" "groups w2 = groups w" "fresh w2 = fresh w"
    using call_compiled_func_frame[OF run] by (simp_all add: generate_begin_run_proj)
qed

lemma generate_loop_events:
  assumes c: "compiled_func (gens w self) = Some c"
    and loop: "generate_loop n E self a w = Some (sig, fr, w')"
  shows "\<exists>m. events w' = events w @ concat (replicate m (bracketed_run (gens w self) c a)) @
            (if sig = StopIteration then finish_events (gens w self)
             else open_run (gens w self) c a)"
  using c loop
proof (induction n arbitrary: w)
  case 0
  then show ?case by simp
next
  case (Suc n)
  let ?G = "gens w self"
  obtain r w2 where run: "call_compiled_func E self a (generate_begin_run E self a w) = (r, w2)"
    by (cases "call_compiled_func E self a (generate_begin_run E self a w)")
  note ev2 = run_events[OF Suc.prems(1) run]
  show ?case
  proof (cases "strategy_is_finished E (strats w (strategy ?G))")
    case True
    with Suc.prems(2) have "sig = StopIteration" "w' = generate_end E self w" by auto
    then have "events w' = events w @ concat (replicate 0 (bracketed_run ?G c a)) @
                 (if sig = StopIteration then finish_events ?G else open_run ?G c a)"
      by (simp add: generate_end_proj)
    then show ?thesis by blast
  next
    case False
    show ?thesis
    proof (cases r)
      case (Inr v)
      with False run Suc.prems(2) have "sig = Yield v" "w' = w2" by auto
      then have "events w' = events w @ concat (replicate 0 (bracketed_run ?G c a)) @
                 (if sig = StopIteration then finish_events ?G else open_run ?G c a)"
        by (simp add: ev2)
      then show ?thesis by blast
    next
      case (Inl e)
      show ?thesis
      proof (cases "e = ExceptionAsContinue")
        case ne: False
        with False run Inl Suc.prems(2) have "sig = Raise (generator_raise e)" "w' = w2" by auto
        then have "events w' = events w @ concat (replicate 0 (bracketed_run ?G c a)) @
                 (if sig = StopIteration then finish_events ?G else open_run ?G c a)"
          by (simp add: ev2)
        then show ?thesis by blast
      next
        case True
        let ?w3 = "generate_end_run E self w2"
        from True False run Inl Suc.prems(2)
        have rest: "generate_loop n E self a ?w3 = Some (sig, fr, w')" by simp
        have g3: "gens ?w3 = gens w" by (simp add: generate_end_run_proj ev2)
        have c3: "compiled_func (gens ?w3 self) = Some c" using Suc.prems(1) g3 by simp
        have e3: "events ?w3 = events w @ bracketed_run ?G c a"
          by (simp add: generate_end_run_proj ev2 bracketed_run_def)
        from Suc.IH[OF c3 rest] obtain m where
          "events w' = events ?w3 @ concat (replicate m (bracketed_run ?G c a)) @
             (if sig = StopIteration then finish_events ?G else open_run ?G c a)"
          by (auto simp: g3)
        then have "events w' = events w @ concat (replicate (Suc m) (bracketed_run ?G c a)) @
             (if sig = StopIteration then finish_events ?G else open_run ?G c a)"
          by (simp add: e3)
        then show ?thesis by blast
      qed
    qed
  qed
qed

lemma generate_loop_frame_of_signal:
  "generate_loop n E self a w = Some (sig, fr, w') \<Longrightarrow>
     fr = (case sig of Yield v \<Rightarrow> Suspended | _ \<Rightarrow> Closed) \<and> sig \<noteq> Raise ExceptionAsContinue"
proof (induction n arbitrary: w)
  case 0
  then show ?case by simp
next
  case (Suc n)
  then show ?case
    by (auto split: if_splits prod.splits sum.splits)
qed


lemma pulls_Suc_elim:
  assumes "pulls (Suc k) nxt fr w = Some (ss, f, w')"
  obtains s fr1 w1 ss' where "nxt fr w = Some (s, fr1, w1)"
    and "pulls k nxt fr1 w1 = Some (ss', f, w')" and "ss = s # ss'"
  using assms by (auto split: option.splits prod.splits)

lemma pulls_length: "pulls k nxt fr w = Some (ss, f, w') \<Longrightarrow> length ss = k"
proof (induction k arbitrary: fr w ss)
  case 0
  then show ?case by simp
next
  case (Suc k)
  from Suc.prems obtain s fr1 w1 ss' where
    "pulls k nxt fr1 w1 = Some (ss', f, w')" "ss = s # ss'"
    by (rule pulls_Suc_elim)
  with Suc.IH show ?case by simp
qed

lemma protocol_events_cong:
  assumes "hooks G' = hooks G" "strategy G' = strategy G"
  shows "init_events G' a = init_events G a"
    and "init_run_events G' a = init_run_events G a"
    and "finish_run_events G' = finish_run_events G"
    and "finish_events G' = finish_events G"
    and "open_run G' c a = open_run G c a"
    and "bracketed_run G' c a = bracketed_run G c a"
  using assms
  by (simp_all add: init_events_def init_run_events_def finish_run_events_def finish_events_def
        open_run_def bracketed_run_def)

lemma concat_replicate_comm: "concat (replicate m B) @ B = B @ concat (replicate m B)"
  by (induction m) simp_all

lemma concat_replicate_join:
  "concat (replicate m1 B) @ B @ concat (replicate m2 B) @ zs =
   concat (replicate (m1 + Suc m2) B) @ zs"
proof -
  have "concat (replicate m1 B) @ B @ concat (replicate m2 B) @ zs =
        (concat (replicate m1 B) @ B) @ concat (replicate m2 B) @ zs" by simp
  also have "\<dots> = B @ concat (replicate m1 B) @ concat (replicate m2 B) @ zs"
    by (simp only: concat_replicate_comm append_assoc)
  finally show ?thesis by (simp add: replicate_add)
qed

lemma pulls_suspended_events:
  assumes c: "compiled_func (gens w self) = Some c"
    and p: "pulls k (generate_next n E self a) Suspended w = Some (map Yield vs @ [StopIteration], fr, w')"
  shows "gens w' = gens w \<and>
         (\<exists>m\<ge>length vs. events w' = events w @ finish_run_events (gens w self) @
            concat (replicate m (bracketed_run (gens w self) c a)) @ finish_events (gens w self))"
  using c p
proof (induction vs arbitrary: k w)
  case Nil
  let ?G = "gens w self"
  let ?wr = "generate_end_run E self w"
  from pulls_length[OF Nil.prems(2)] have "k = Suc 0" by simp
  with Nil.prems(2) have first: "generate_loop n E self a ?wr = Some (StopIteration, fr, w')"
    by (auto simp: generate_next_def split: option.splits prod.splits)
  have gr: "gens ?wr = gens w" by (simp add: generate_end_run_proj)
  have cr: "compiled_func (gens ?wr self) = Some c" using Nil.prems(1) gr by simp
  from generate_loop_events[OF cr first] obtain m where
    "events w' = events ?wr @ concat (replicate m (bracketed_run ?G c a)) @ finish_events ?G"
    by (auto simp: gr)
  then have "events w' = events w @ finish_run_events ?G @
               concat (replicate m (bracketed_run ?G c a)) @ finish_events ?G"
    by (simp add: generate_end_run_proj)
  moreover have "gens w' = gens w" using generate_loop_frame[OF first] gr by simp
  ultimately show ?case by auto
next
  case (Cons v vs)
  let ?G = "gens w self"
  let ?wr = "generate_end_run E self w"
  from pulls_length[OF Cons.prems(2)] obtain k' where k: "k = Suc k'" by (cases k) auto
  from Cons.prems(2)[unfolded k] obtain s fr1 w1 ss' where
    nx: "generate_next n E self a Suspended w = Some (s, fr1, w1)"
    and rest: "pulls k' (generate_next n E self a) fr1 w1 = Some (ss', fr, w')"
    and ss: "map Yield (v # vs) @ [StopIteration] = s # ss'"
    by (rule pulls_Suc_elim)
  from ss have s: "s = Yield v" and ss': "ss' = map Yield vs @ [StopIteration]" by simp_all
  from nx s have first: "generate_loop n E self a ?wr = Some (Yield v, fr1, w1)"
    by (simp add: generate_next_def)
  from generate_loop_frame_of_signal[OF first] have fr1: "fr1 = Suspended" by simp
  have gr: "gens ?wr = gens w" by (simp add: generate_end_run_proj)
  have cr: "compiled_func (gens ?wr self) = Some c" using Cons.prems(1) gr by simp
  have g1: "gens w1 = gens w" using generate_loop_frame[OF first] gr by simp
  have c1: "compiled_func (gens w1 self) = Some c" using Cons.prems(1) g1 by simp
  from generate_loop_events[OF cr first] obtain m1 where
    "events w1 = events ?wr @ concat (replicate m1 (bracketed_run ?G c a)) @ open_run ?G c a"
    by (auto simp: gr)
  then have e1: "events w1 = events w @ finish_run_events ?G @
                   concat (replicate m1 (bracketed_run ?G c a)) @ open_run ?G c a"
    by (simp add: generate_end_run_proj)
  from Cons.IH[OF c1 rest[unfolded fr1 ss']] obtain m2 where
    m2: "length vs \<le> m2" and
    e2: "events w' = events w1 @ finish_run_events ?G @
           concat (replicate m2 (bracketed_run ?G c a)) @ finish_events ?G"
    and g2: "gens w' = gens w"
    by (auto simp: g1)
  have "events w' = events w @ finish_run_events ?G @
          concat (replicate (m1 + Suc m2) (bracketed_run ?G c a)) @ finish_events ?G"
  proof -
    have "events w' = events w @ finish_run_events ?G @
            (concat (replicate m1 (bracketed_run ?G c a)) @ bracketed_run ?G c a @
             concat (replicate m2 (bracketed_run ?G c a)) @ finish_events ?G)"
      unfolding e2 e1 by (simp add: bracketed_run_def)
    then show ?thesis by (simp only: concat_replicate_join)
  qed
  moreover have "length (v # vs) \<le> m1 + Suc m2" using m2 by simp
  ultimately show ?case using g2 by blast
qed


lemma generate_begin_ok:
  assumes "generate_begin E self a w = (Inr u, w0)"
  shows "compiled_func (gens w0 self) \<noteq> None"
    and "hooks (gens w0 self) = hooks (gens w self)"
    and "strategy (gens w0 self) = strategy (gens w self)"
    and "events w0 = events w @ init_events (gens w self) a"
    and "strats w0 (strategy (gens w self)) = strategy_init E (strats w (strategy (gens w self)))"
    and "fst (compile_if_needed E self w) = Inr ()"
proof -
  obtain r wc where ci: "compile_if_needed E self w = (r, wc)"
    by (cases "compile_if_needed E self w")
  with assms have r: "r = Inr ()"
    and w0: "w0 = strategy_call (strategy_init E) Strategy_init self
                    (notify (\<lambda>h. Hook_init h a) (hooks (gens wc self)) wc)"
    by (auto simp: generate_begin_def split: sum.splits)
  note fr = compile_if_needed_frame[OF ci]
  from fr have hs: "hooks (gens wc self) = hooks (gens w self)"
    and st: "strategy (gens wc self) = strategy (gens w self)" by simp_all
  have gw0: "gens w0 = gens wc" by (simp add: w0 strategy_call_def notify_eq Let_def)
  show "compiled_func (gens w0 self) \<noteq> None"
    using compile_if_needed_ok[OF ci[unfolded r]] gw0 by simp
  show "hooks (gens w0 self) = hooks (gens w self)" using gw0 hs by simp
  show "strategy (gens w0 self) = strategy (gens w self)" using gw0 st by simp
  show "events w0 = events w @ init_events (gens w self) a"
    using fr hs st by (simp add: w0 strategy_call_def notify_eq Let_def init_events_def)
  show "strats w0 (strategy (gens w self)) = strategy_init E (strats w (strategy (gens w self)))"
    using fr st by (simp add: w0 strategy_call_def notify_eq Let_def)
  show "fst (compile_if_needed E self w) = Inr ()" using ci r by simp
qed

lemma count_list_concat_replicate:
  "count_list (concat (replicate m B)) x = m * count_list B x"
  by (induction m) simp_all

lemma count_strategy_init:
  "count_list (init_events G a @ concat (replicate m (bracketed_run G c a)) @ finish_events G)
     (Strategy_init (strategy G)) = 1"
proof -
  have "Strategy_init (strategy G) \<notin> set (bracketed_run G c a)"
    by (auto simp: bracketed_run_def open_run_def init_run_events_def finish_run_events_def)
  then have b: "count_list (bracketed_run G c a) (Strategy_init (strategy G)) = 0"
    by (simp only: count_list_0_iff)
  have "Strategy_init (strategy G) \<notin> set (map (\<lambda>h. Hook_init h a) (hooks G))" by auto
  then have i: "count_list (map (\<lambda>h. Hook_init h a) (hooks G)) (Strategy_init (strategy G)) = 0"
    by (simp only: count_list_0_iff)
  have "Strategy_init (strategy G) \<notin> set (finish_events G)"
    by (auto simp: finish_events_def)
  then have f: "count_list (finish_events G) (Strategy_init (strategy G)) = 0"
    by (simp only: count_list_0_iff)
  show ?thesis
    by (simp add: count_list_concat_replicate b f) (simp add: init_events_def i)
qed

lemma count_strategy_finish:
  "count_list (init_events G a @ concat (replicate m (bracketed_run G c a)) @ finish_events G)
     (Strategy_finish (strategy G)) = 1"
proof -
  have "Strategy_finish (strategy G) \<notin> set (bracketed_run G c a)"
    by (auto simp: bracketed_run_def open_run_def init_run_events_def finish_run_events_def)
  then have b: "count_list (bracketed_run G c a) (Strategy_finish (strategy G)) = 0"
    by (simp only: count_list_0_iff)
  have "Strategy_finish (strategy G) \<notin> set (init_events G a)"
    by (auto simp: init_events_def)
  then have i: "count_list (init_events G a) (Strategy_finish (strategy G)) = 0"
    by (simp only: count_list_0_iff)
  have "Strategy_finish (strategy G) \<notin> set (map Hook_finish (hooks G))" by auto
  then have f: "count_list (map Hook_finish (hooks G)) (Strategy_finish (strategy G)) = 0"
    by (simp only: count_list_0_iff)
  show ?thesis
    by (simp add: count_list_concat_replicate b i) (simp add: finish_events_def f)
qed

lemma generate_created_events:
  assumes p: "pulls k (generate_next n E self a) Created w
                = Some (map Yield vs @ [StopIteration], fr, w')"
  shows "\<exists>c m. compiled_func (gens w' self) = Some c \<and> length vs \<le> m \<and>
           events w' = events w @ init_events (gens w self) a @
             concat (replicate m (bracketed_run (gens w self) c a)) @ finish_events (gens w self) \<and>
           (strategy_is_finished E (strategy_init E (strats w (strategy (gens w self))))
              \<longrightarrow> m = 0 \<and> vs = [])"
proof -
  let ?G = "gens w self"
  from pulls_length[OF p] obtain k' where k: "k = Suc k'" by (cases k) auto
  from p[unfolded k] obtain s fr1 w1 ss' where
    nx: "generate_next n E self a Created w = Some (s, fr1, w1)"
    and rest: "pulls k' (generate_next n E self a) fr1 w1 = Some (ss', fr, w')"
    and ss: "map Yield vs @ [StopIteration] = s # ss'"
    by (rule pulls_Suc_elim)
  from ss have snr: "\<And>e. s \<noteq> Raise e" by (cases vs) auto
  obtain r w0 where gb: "generate_begin E self a w = (r, w0)"
    by (cases "generate_begin E self a w")
  from nx gb snr have r: "r = Inr ()" and first: "generate_loop n E self a w0 = Some (s, fr1, w1)"
    by (auto simp: generate_next_def split: sum.splits)
  note b = generate_begin_ok[OF gb[unfolded r]]
  from b(1) obtain c where c0: "compiled_func (gens w0 self) = Some c" by auto
  note pc = protocol_events_cong[OF b(2) b(3)]
  have g1: "gens w1 = gens w0" using generate_loop_frame[OF first] by simp
  have c1: "compiled_func (gens w1 self) = Some c" using c0 g1 by simp
  from generate_loop_events[OF c0 first] obtain m1 where
    e1: "events w1 = events w @ init_events ?G a @ concat (replicate m1 (bracketed_run ?G c a)) @
           (if s = StopIteration then finish_events ?G else open_run ?G c a)"
    by (auto simp: pc b(4))
  have fin: "strategy_is_finished E (strategy_init E (strats w (strategy ?G))) \<Longrightarrow>
               s = StopIteration \<and> w1 = generate_end E self w0"
  proof -
    assume f: "strategy_is_finished E (strategy_init E (strats w (strategy ?G)))"
    from first obtain n' where n: "n = Suc n'" by (cases n) auto
    from f have "strategy_is_finished E (strats w0 (strategy (gens w0 self)))"
      by (simp add: b(3) b(5))
    with first[unfolded n] show ?thesis by simp
  qed
  show ?thesis
  proof (cases vs)
    case Nil
    with ss have s: "s = StopIteration" and "ss' = []" by simp_all
    with pulls_length[OF rest] have "k' = 0" by simp
    with rest have w': "w' = w1" by simp
    show ?thesis
    proof (cases "strategy_is_finished E (strategy_init E (strats w (strategy ?G)))")
      case True
      from fin[OF True] have "events w1 = events w @ init_events ?G a @
          concat (replicate 0 (bracketed_run ?G c a)) @ finish_events ?G"
        by (simp add: generate_end_proj b(4) pc)
      with c1 w' Nil show ?thesis by blast
    next
      case False
      with e1 s c1 w' Nil show ?thesis by auto
    qed
  next
    case (Cons v vs')
    with ss have s: "s = Yield v" and ss': "ss' = map Yield vs' @ [StopIteration]" by simp_all
    from fin s have nf: "\<not> strategy_is_finished E (strategy_init E (strats w (strategy ?G)))"
      by auto
    from generate_loop_frame_of_signal[OF first] s have fr1: "fr1 = Suspended" by simp
    from pulls_suspended_events[OF c1 rest[unfolded fr1 ss']] obtain m2 where
      m2: "length vs' \<le> m2" and g': "gens w' = gens w1"
      and e2: "events w' = events w1 @ finish_run_events ?G @
                 concat (replicate m2 (bracketed_run ?G c a)) @ finish_events ?G"
      by (auto simp: g1 pc)
    have "events w' = events w @ init_events ?G a @
            (concat (replicate m1 (bracketed_run ?G c a)) @ bracketed_run ?G c a @
             concat (replicate m2 (bracketed_run ?G c a)) @ finish_events ?G)"
      unfolding e2 e1 using s by (simp add: bracketed_run_def)
    then have "events w' = events w @ init_events ?G a @
            concat (replicate (m1 + Suc m2) (bracketed_run ?G c a)) @ finish_events ?G"
      by (simp only: concat_replicate_join)
    moreover have "length vs \<le> m1 + Suc m2" using m2 Cons by simp
    moreover have "compiled_func (gens w' self) = Some c" using c1 g' by simp
    ultimately show ?thesis using nf by blast
  qed
qed

text \<open>
  C2. Let a consumer exhaust an enumeration: its calls of \<^verbatim>\<open>next\<close> on a new iterator
  return the values \<open>vs\<close> and then StopIteration. Then the events of the enumeration
  are, in this order: \<^verbatim>\<open>init\<close> of every hook and of the strategy; some number \<open>m\<close> of
  runs, at least as many as there are values, each one between the \<^verbatim>\<open>init_run\<close> of
  every hook and of the strategy and the \<^verbatim>\<open>finish_run\<close> of the strategy and of every
  hook; and \<^verbatim>\<open>finish\<close> of the strategy and of every hook. The strategy's \<^verbatim>\<open>init\<close> and
  \<^verbatim>\<open>finish\<close> occur once each among them. If the strategy is finished right after
  \<^verbatim>\<open>init\<close>, there is no run and no value; and in that case, compilation having
  succeeded, the first \<^verbatim>\<open>next\<close> does return StopIteration, after the opening and the
  closing notifications only.
\<close>

theorem generate_lifecycle:
  "(pulls k (generate_next n E self a) Created w
      = Some (map Yield vs @ [StopIteration], fr, w') \<longrightarrow>
    (\<exists>c m. compiled_func (gens w' self) = Some c \<and> length vs \<le> m \<and>
       events w' = events w @ init_events (gens w self) a @
         concat (replicate m (bracketed_run (gens w self) c a)) @ finish_events (gens w self) \<and>
       count_list (drop (length (events w)) (events w')) (Strategy_init (strategy (gens w self))) = 1 \<and>
       count_list (drop (length (events w)) (events w')) (Strategy_finish (strategy (gens w self))) = 1 \<and>
       (strategy_is_finished E (strategy_init E (strats w (strategy (gens w self))))
          \<longrightarrow> m = 0 \<and> vs = []))) \<and>
   (fst (compile_if_needed E self w) = Inr () \<and>
    strategy_is_finished E (strategy_init E (strats w (strategy (gens w self)))) \<longrightarrow>
    (\<exists>w''. generate_next (Suc n) E self a Created w = Some (StopIteration, Closed, w'') \<and>
       events w'' = events w @ init_events (gens w self) a @ finish_events (gens w self)))"
proof (intro conjI impI)
  assume p: "pulls k (generate_next n E self a) Created w
               = Some (map Yield vs @ [StopIteration], fr, w')"
  from generate_created_events[OF p] obtain c m where
    c: "compiled_func (gens w' self) = Some c" and m: "length vs \<le> m"
    and e: "events w' = events w @ init_events (gens w self) a @
         concat (replicate m (bracketed_run (gens w self) c a)) @ finish_events (gens w self)"
    and f: "strategy_is_finished E (strategy_init E (strats w (strategy (gens w self))))
          \<longrightarrow> m = 0 \<and> vs = []"
    by blast
  have d: "drop (length (events w)) (events w') = init_events (gens w self) a @
         concat (replicate m (bracketed_run (gens w self) c a)) @ finish_events (gens w self)"
    by (simp add: e)
  have "count_list (drop (length (events w)) (events w')) (Strategy_init (strategy (gens w self))) = 1"
    unfolding d by (rule count_strategy_init)
  moreover
  have "count_list (drop (length (events w)) (events w')) (Strategy_finish (strategy (gens w self))) = 1"
    unfolding d by (rule count_strategy_finish)
  ultimately
  show "\<exists>c m. compiled_func (gens w' self) = Some c \<and> length vs \<le> m \<and>
       events w' = events w @ init_events (gens w self) a @
         concat (replicate m (bracketed_run (gens w self) c a)) @ finish_events (gens w self) \<and>
       count_list (drop (length (events w)) (events w')) (Strategy_init (strategy (gens w self))) = 1 \<and>
       count_list (drop (length (events w)) (events w')) (Strategy_finish (strategy (gens w self))) = 1 \<and>
       (strategy_is_finished E (strategy_init E (strats w (strategy (gens w self))))
          \<longrightarrow> m = 0 \<and> vs = [])"
    using c m e f by blast
next
  assume a: "fst (compile_if_needed E self w) = Inr () \<and>
    strategy_is_finished E (strategy_init E (strats w (strategy (gens w self))))"
  obtain r w0 where gb: "generate_begin E self a w = (r, w0)"
    by (cases "generate_begin E self a w")
  from a gb have r: "r = Inr ()"
    by (auto simp: generate_begin_def split: prod.splits sum.splits)
  note b = generate_begin_ok[OF gb[unfolded r]]
  have fin: "strategy_is_finished E (strats w0 (strategy (gens w0 self)))"
    using a by (simp add: b(3) b(5))
  have "generate_next (Suc n) E self a Created w = Some (StopIteration, Closed, generate_end E self w0)"
    using gb r fin by (simp add: generate_next_def)
  moreover have "events (generate_end E self w0) =
      events w @ init_events (gens w self) a @ finish_events (gens w self)"
    by (simp add: generate_end_proj b(4) protocol_events_cong[OF b(2) b(3)])
  ultimately
  show "\<exists>w''. generate_next (Suc n) E self a Created w = Some (StopIteration, Closed, w'') \<and>
       events w'' = events w @ init_events (gens w self) a @ finish_events (gens w self)"
    by blast
qed

theorem generate_lifecycle_witness:
  "map_option fst (pulls 3 (generate_next 5 demo_env 0 5) Created demo_world)
     = Some (map Yield [8, 6] @ [StopIteration]) \<and>
   (\<exists>c m. length [8, 6 :: nat] \<le> m \<and>
      events (snd (snd (the (pulls 3 (generate_next 5 demo_env 0 5) Created demo_world)))) =
        events demo_world @ init_events (gens demo_world 0) 5 @
        concat (replicate m (bracketed_run (gens demo_world 0) c 5)) @
        finish_events (gens demo_world 0)) \<and>
   fst (compile_if_needed demo_done_env 0 demo_world) = Inr () \<and>
   strategy_is_finished demo_done_env
     (strategy_init demo_done_env (strats demo_world (strategy (gens demo_world 0)))) \<and>
   (\<exists>w''. generate_next (Suc 0) demo_done_env 0 5 Created demo_world
            = Some (StopIteration, Closed, w'') \<and>
      events w'' = events demo_world @ init_events (gens demo_world 0) 5 @
                   finish_events (gens demo_world 0))"
proof -
  let ?P = "pulls 3 (generate_next 5 demo_env 0 5) Created demo_world"
  have ev: "map_option fst ?P = Some (map Yield [8, 6] @ [StopIteration])"
    by code_simp
  then obtain fr w' where p: "?P = Some (map Yield [8, 6] @ [StopIteration], fr, w')"
    by (cases ?P) auto
  then have w': "snd (snd (the ?P)) = w'" by simp
  from mp[OF conjunct1[OF generate_lifecycle[where k=3 and n=5 and E=demo_env and self=0
        and a=5 and w=demo_world and vs="[8, 6]"]] p]
  have one: "\<exists>c m. length [8, 6 :: nat] \<le> m \<and>
      events (snd (snd (the ?P))) =
        events demo_world @ init_events (gens demo_world 0) 5 @
        concat (replicate m (bracketed_run (gens demo_world 0) c 5)) @
        finish_events (gens demo_world 0)"
    unfolding w' by blast
  have c: "fst (compile_if_needed demo_done_env 0 demo_world) = Inr ()"
    by code_simp
  have f: "strategy_is_finished demo_done_env
     (strategy_init demo_done_env (strats demo_world (strategy (gens demo_world 0))))"
    by code_simp
  note two = mp[OF conjunct2[OF generate_lifecycle[where n=0 and E=demo_done_env and self=0
        and a=5 and w=demo_world]] conjI[OF c f]]
  show ?thesis by (rule conjI[OF ev conjI[OF one conjI[OF c conjI[OF f two]]]])
qed

lemma pulls_closed:
  "pulls k (generate_next n E self a) Closed w = Some (replicate k StopIteration, Closed, w)"
  by (induction k) (simp_all add: generate_next_def)

lemma for_each_error:
  "for_each body xs w = (Inl e, w') \<Longrightarrow> \<exists>x w1 w2. body x w1 = (Inl e, w2)"
proof (induction xs arbitrary: w)
  case Nil
  then show ?case by simp
next
  case (Cons x xs)
  obtain r w1 where b: "body x w = (r, w1)" by (cases "body x w")
  show ?case
  proof (cases r)
    case (Inl e')
    with b Cons.prems have "body x w = (Inl e, w')" by simp
    then show ?thesis by blast
  next
    case (Inr u)
    with b Cons.prems have "for_each body xs w1 = (Inl e, w')" by simp
    from Cons.IH[OF this] show ?thesis .
  qed
qed

lemma for_group_error:
  assumes "for_group self as_group body w = (Inl e, w')"
  shows "(\<exists>n. e = KeyError n) \<or> (\<exists>g w1 w2. body g w1 = (Inl e, w2))"
proof -
  let ?b = "\<lambda>g w'. if g \<noteq> self then body g w' else (Inr (), w')"
  from assms consider (key) n where "e = KeyError n"
    | (loop) ms where "for_each ?b ms w = (Inl e, w')"
    by (auto simp: for_group_def get_group_by_name_def split: option.splits if_splits)
  then show ?thesis
  proof cases
    case key
    then show ?thesis by blast
  next
    case loop
    from for_each_error[OF loop] obtain x w1 w2 where "?b x w1 = (Inl e, w2)" by blast
    then have "body x w1 = (Inl e, w2)" by (auto split: if_splits)
    then show ?thesis by blast
  qed
qed

lemma register_hooks_error:
  "register_hooks self hs as_group w = (Inl e, w') \<Longrightarrow> \<exists>n. e = KeyError n"
  by (auto simp: register_hooks_def register_hooks_self_def dest!: for_group_error)

lemma deregister_hook_error:
  "deregister_hook self hook as_group w = (Inl e, w') \<Longrightarrow>
     (\<exists>n. e = KeyError n) \<or> e = ValueError ''Hook was not registered.''"
  by (auto simp: deregister_hook_def deregister_hook_self_def
           split: if_splits prod.splits sum.splits dest!: for_group_error)

lemma generate_next_no_skip:
  assumes "\<And>g f s hs. compile_error E g f s hs \<noteq> Some ExceptionAsContinue"
  shows "generate_next n E self a fr w \<noteq> Some (Raise ExceptionAsContinue, fr', w')"
proof (cases fr)
  case Created
  show ?thesis
  proof
    assume r: "generate_next n E self a fr w = Some (Raise ExceptionAsContinue, fr', w')"
    obtain x w0 where gb: "generate_begin E self a w = (x, w0)"
      by (cases "generate_begin E self a w")
    show False
    proof (cases x)
      case (Inl e)
      with r gb Created have "e = ExceptionAsContinue" by (simp add: generate_next_def)
      with gb Inl assms show False
        by (auto simp: generate_begin_def compile_if_needed_def compile_func_def
                 split: if_splits prod.splits sum.splits option.splits)
    next
      case (Inr u)
      with r gb Created have "generate_loop n E self a w0 = Some (Raise ExceptionAsContinue, fr', w')"
        by (simp add: generate_next_def)
      from generate_loop_frame_of_signal[OF this] show False by simp
    qed
  qed
next
  case Suspended
  then show ?thesis
    using generate_loop_frame_of_signal[of n E self a "generate_end_run E self w"
        "Raise ExceptionAsContinue" fr' w']
    by (auto simp: generate_next_def)
next
  case Closed
  then show ?thesis by (simp add: generate_next_def)
qed

lemma trace_resume_no_skip:
  assumes "\<And>g f s hs. compile_error E g f s hs \<noteq> Some ExceptionAsContinue"
  shows "trace_resume n E self a t fr w \<noteq> Some (Raise ExceptionAsContinue, tf', w')"
proof
  assume r: "trace_resume n E self a t fr w = Some (Raise ExceptionAsContinue, tf', w')"
  then obtain sg fr1 w1 where nx: "generate_next n E self a fr w = Some (sg, fr1, w1)"
    by (auto simp: trace_resume_def split: option.splits)
  show False
  proof (cases sg)
    case (Yield v)
    with r nx show False by (simp add: trace_resume_def)
  next
    case StopIteration
    with r nx obtain w2 where "deregister_hook self t True w1 = (Inl ExceptionAsContinue, w2)"
      by (auto simp: trace_resume_def split: prod.splits sum.splits)
    from deregister_hook_error[OF this] show False by auto
  next
    case (Raise e)
    with r nx have "e = ExceptionAsContinue" by (simp add: trace_resume_def)
    with nx Raise generate_next_no_skip[OF assms] show False by blast
  qed
qed

lemma trace_next_no_skip:
  assumes "\<And>g f s hs. compile_error E g f s hs \<noteq> Some ExceptionAsContinue"
  shows "trace_next n E self a tf w \<noteq> Some (Raise ExceptionAsContinue, tf', w')"
proof (cases tf)
  case Trace_created
  show ?thesis
  proof
    assume r: "trace_next n E self a tf w = Some (Raise ExceptionAsContinue, tf', w')"
    let ?w0 = "w\<lparr>fresh := Suc (fresh w)\<rparr>"
    obtain x w1 where rg: "register_hooks self [fresh w] True ?w0 = (x, w1)"
      by (cases "register_hooks self [fresh w] True ?w0")
    show False
    proof (cases x)
      case (Inl e)
      with r rg Trace_created have "e = ExceptionAsContinue"
        by (simp add: trace_next_def Let_def)
      with register_hooks_error[OF rg[unfolded Inl]] show False by auto
    next
      case (Inr u)
      with r rg Trace_created
      have "trace_resume n E self a (fresh w) Created w1 = Some (Raise ExceptionAsContinue, tf', w')"
        by (simp add: trace_next_def Let_def)
      with trace_resume_no_skip[OF assms] show False by blast
    qed
  qed
next
  case (Trace_running t fr)
  then show ?thesis using trace_resume_no_skip[OF assms] by (simp add: trace_next_def)
next
  case Trace_closed
  then show ?thesis by (simp add: trace_next_def)
qed

text \<open>
  C1, as the claim states it, fails: a run that raises \<^verbatim>\<open>StopIteration\<close> is a run that
  raises an exception other than \<^verbatim>\<open>ExceptionAsContinue\<close>, and what the caller of
  \<^verbatim>\<open>next\<close> receives is not that exception but a RuntimeError.
\<close>

theorem skip_is_caught_counterexample:
  "fst (call_compiled_func demo_env 0 98 (generate_begin_run demo_env 0 98 (demo_running 3)))
     = Inl StopIteration_exn \<and>
   StopIteration_exn \<noteq> ExceptionAsContinue \<and>
   map_option fst (generate_loop 4 demo_env 0 98 (demo_running 3))
     = Some (Raise (RuntimeError ''generator raised StopIteration'')) \<and>
   map_option fst (generate_loop 4 demo_env 0 98 (demo_running 3))
     \<noteq> Some (Raise StopIteration_exn)"
  by code_simp

text \<open>
  C1, amended. Provided compilation itself does not raise it, no \<^verbatim>\<open>next\<close> on an
  iterator of \<^verbatim>\<open>generate\<close> or of \<^verbatim>\<open>trace\<close> raises \<^verbatim>\<open>ExceptionAsContinue\<close>. At the head
  of the loop, with the strategy not finished: a run that raises
  \<^verbatim>\<open>ExceptionAsContinue\<close> yields nothing, and the same \<^verbatim>\<open>next\<close> goes on exactly as a
  \<^verbatim>\<open>next\<close> that resumes the iterator after a run that had yielded from the same state;
  a run that returns \<open>v\<close> yields \<open>v\<close>; a run that raises any other exception \<open>e\<close> closes
  the iterator, so that every later \<^verbatim>\<open>next\<close> is StopIteration and changes nothing, and
  makes \<^verbatim>\<open>next\<close> raise \<open>e\<close> itself, unless \<open>e\<close> is \<^verbatim>\<open>StopIteration\<close>, in whose place
  \<^verbatim>\<open>next\<close> raises \<^verbatim>\<open>RuntimeError("generator raised StopIteration")\<close>.
\<close>

theorem skip_is_caught:
  "((\<forall>g f s hs. compile_error E g f s hs \<noteq> Some ExceptionAsContinue) \<longrightarrow>
      generate_next n E self a fr w \<noteq> Some (Raise ExceptionAsContinue, fr', w') \<and>
      trace_next n E self a tf w \<noteq> Some (Raise ExceptionAsContinue, tf', w')) \<and>
   (\<not> strategy_is_finished E (strats w (strategy (gens w self))) \<and>
    call_compiled_func E self a (generate_begin_run E self a w) = (Inl ExceptionAsContinue, w2) \<longrightarrow>
      generate_loop (Suc n) E self a w = generate_next n E self a Suspended w2) \<and>
   (\<not> strategy_is_finished E (strats w (strategy (gens w self))) \<and>
    call_compiled_func E self a (generate_begin_run E self a w) = (Inr v, w2) \<longrightarrow>
      generate_loop (Suc n) E self a w = Some (Yield v, Suspended, w2)) \<and>
   (\<not> strategy_is_finished E (strats w (strategy (gens w self))) \<and>
    call_compiled_func E self a (generate_begin_run E self a w) = (Inl e, w2) \<and>
    e \<noteq> ExceptionAsContinue \<and> e \<noteq> StopIteration_exn \<longrightarrow>
      generate_loop (Suc n) E self a w = Some (Raise e, Closed, w2) \<and>
      pulls k (generate_next n E self a) Closed w2 = Some (replicate k StopIteration, Closed, w2)) \<and>
   (\<not> strategy_is_finished E (strats w (strategy (gens w self))) \<and>
    call_compiled_func E self a (generate_begin_run E self a w) = (Inl StopIteration_exn, w2) \<longrightarrow>
      generate_loop (Suc n) E self a w =
        Some (Raise (RuntimeError ''generator raised StopIteration''), Closed, w2) \<and>
      pulls k (generate_next n E self a) Closed w2 = Some (replicate k StopIteration, Closed, w2))"
  using generate_next_no_skip[of E n self a fr w fr' w'] trace_next_no_skip[of E n self a tf w tf' w']
  by (simp add: pulls_closed generator_raise_other) (simp add: generate_next_def)

text \<open>
  C9. At the head of the loop, with the function compiled and the strategy not
  finished: after a run that raises \<^verbatim>\<open>ExceptionAsContinue\<close> the loop is back at its
  head with the run's whole bracket in the events, \<^verbatim>\<open>finish_run\<close> of the strategy and
  of every hook included; after a run that raises another exception \<open>e\<close> the iterator is
  closed, \<^verbatim>\<open>next\<close> raising what a generator raises for \<open>e\<close>, with the events ending at
  the run, and later calls add nothing. Over a whole
  \<^verbatim>\<open>next\<close> that raises: the events it adds are a number of fully bracketed runs (the
  ones skipped) and then the opened run, with no \<^verbatim>\<open>finish_run\<close> or \<^verbatim>\<open>finish\<close> after it.
\<close>

theorem closing_bracket_on_exceptions:
  "(compiled_func (gens w self) = Some c \<and>
    \<not> strategy_is_finished E (strats w (strategy (gens w self))) \<and>
    call_compiled_func E self a (generate_begin_run E self a w) = (Inl ExceptionAsContinue, w2) \<longrightarrow>
      generate_loop (Suc n) E self a w = generate_loop n E self a (generate_end_run E self w2) \<and>
      events (generate_end_run E self w2) = events w @ bracketed_run (gens w self) c a) \<and>
   (compiled_func (gens w self) = Some c \<and>
    \<not> strategy_is_finished E (strats w (strategy (gens w self))) \<and>
    call_compiled_func E self a (generate_begin_run E self a w) = (Inl e, w2) \<and>
    e \<noteq> ExceptionAsContinue \<longrightarrow>
      generate_loop (Suc n) E self a w = Some (Raise (generator_raise e), Closed, w2) \<and>
      events w2 = events w @ open_run (gens w self) c a \<and>
      pulls k (generate_next n E self a) Closed w2 = Some (replicate k StopIteration, Closed, w2)) \<and>
   (compiled_func (gens w self) = Some c \<and>
    generate_loop n E self a w = Some (Raise e, fr, w') \<longrightarrow>
      (\<exists>m. events w' = events w @ concat (replicate m (bracketed_run (gens w self) c a)) @
                        open_run (gens w self) c a))"
proof (intro conjI impI)
  assume a: "compiled_func (gens w self) = Some c \<and>
    \<not> strategy_is_finished E (strats w (strategy (gens w self))) \<and>
    call_compiled_func E self a (generate_begin_run E self a w) = (Inl ExceptionAsContinue, w2)"
  then show "generate_loop (Suc n) E self a w = generate_loop n E self a (generate_end_run E self w2)"
    by simp
  from a have c: "compiled_func (gens w self) = Some c"
    and run: "call_compiled_func E self a (generate_begin_run E self a w) = (Inl ExceptionAsContinue, w2)"
    by simp_all
  note ev = run_events[OF c run]
  show "events (generate_end_run E self w2) = events w @ bracketed_run (gens w self) c a"
    by (simp add: generate_end_run_proj ev bracketed_run_def)
next
  assume a: "compiled_func (gens w self) = Some c \<and>
    \<not> strategy_is_finished E (strats w (strategy (gens w self))) \<and>
    call_compiled_func E self a (generate_begin_run E self a w) = (Inl e, w2) \<and>
    e \<noteq> ExceptionAsContinue"
  then show "generate_loop (Suc n) E self a w = Some (Raise (generator_raise e), Closed, w2)"
    by simp
  from a have c: "compiled_func (gens w self) = Some c"
    and run: "call_compiled_func E self a (generate_begin_run E self a w) = (Inl e, w2)"
    by simp_all
  show "events w2 = events w @ open_run (gens w self) c a" by (rule run_events(1)[OF c run])
  show "pulls k (generate_next n E self a) Closed w2 = Some (replicate k StopIteration, Closed, w2)"
    by (rule pulls_closed)
next
  assume a: "compiled_func (gens w self) = Some c \<and>
    generate_loop n E self a w = Some (Raise e, fr, w')"
  then have c: "compiled_func (gens w self) = Some c"
    and l: "generate_loop n E self a w = Some (Raise e, fr, w')" by simp_all
  from generate_loop_events[OF c l]
  show "\<exists>m. events w' = events w @ concat (replicate m (bracketed_run (gens w self) c a)) @
                        open_run (gens w self) c a"
    by simp
qed


theorem skip_is_caught_witness:
  "generate_next 5 demo_env 0 5 Created demo_world
     \<noteq> Some (Raise ExceptionAsContinue, Closed, demo_world) \<and>
   trace_next 5 demo_env 0 5 Trace_created demo_world
     \<noteq> Some (Raise ExceptionAsContinue, Trace_closed, demo_world) \<and>
   \<not> strategy_is_finished demo_env (strats (demo_running 2) (strategy (gens (demo_running 2) 0))) \<and>
   fst (call_compiled_func demo_env 0 5 (generate_begin_run demo_env 0 5 (demo_running 2)))
     = Inl ExceptionAsContinue \<and>
   generate_loop (Suc 3) demo_env 0 5 (demo_running 2) =
     generate_next 3 demo_env 0 5 Suspended
       (snd (call_compiled_func demo_env 0 5 (generate_begin_run demo_env 0 5 (demo_running 2)))) \<and>
   fst (call_compiled_func demo_env 0 5 (generate_begin_run demo_env 0 5 (demo_running 3)))
     = Inr 8 \<and>
   generate_loop (Suc 3) demo_env 0 5 (demo_running 3) =
     Some (Yield 8, Suspended,
       snd (call_compiled_func demo_env 0 5 (generate_begin_run demo_env 0 5 (demo_running 3)))) \<and>
   fst (call_compiled_func demo_env 0 99 (generate_begin_run demo_env 0 99 (demo_running 3)))
     = Inl (ValueError ''bad argument'') \<and>
   generate_loop (Suc 3) demo_env 0 99 (demo_running 3) =
     Some (Raise (ValueError ''bad argument''), Closed,
       snd (call_compiled_func demo_env 0 99 (generate_begin_run demo_env 0 99 (demo_running 3)))) \<and>
   pulls 2 (generate_next 3 demo_env 0 99) Closed
       (snd (call_compiled_func demo_env 0 99 (generate_begin_run demo_env 0 99 (demo_running 3)))) =
     Some (replicate 2 StopIteration, Closed,
       snd (call_compiled_func demo_env 0 99 (generate_begin_run demo_env 0 99 (demo_running 3)))) \<and>
   fst (call_compiled_func demo_env 0 98 (generate_begin_run demo_env 0 98 (demo_running 3)))
     = Inl StopIteration_exn \<and>
   generate_loop (Suc 3) demo_env 0 98 (demo_running 3) =
     Some (Raise (RuntimeError ''generator raised StopIteration''), Closed,
       snd (call_compiled_func demo_env 0 98 (generate_begin_run demo_env 0 98 (demo_running 3))))"
proof -
  let ?stop = "call_compiled_func demo_env 0 98 (generate_begin_run demo_env 0 98 (demo_running 3))"
  let ?skip = "call_compiled_func demo_env 0 5 (generate_begin_run demo_env 0 5 (demo_running 2))"
  let ?ret = "call_compiled_func demo_env 0 5 (generate_begin_run demo_env 0 5 (demo_running 3))"
  let ?err = "call_compiled_func demo_env 0 99 (generate_begin_run demo_env 0 99 (demo_running 3))"
  have ce: "\<forall>g f s hs. compile_error demo_env g f s hs \<noteq> Some ExceptionAsContinue"
    by (simp add: demo_env_def)
  note t1 = mp[OF conjunct1[OF skip_is_caught[where E=demo_env and n=5 and self=0 and a=5
        and fr=Created and w=demo_world and fr'=Closed and w'=demo_world
        and tf=Trace_created and tf'=Trace_closed]] ce]
  have nf2: "\<not> strategy_is_finished demo_env (strats (demo_running 2) (strategy (gens (demo_running 2) 0)))"
    by code_simp
  have nf3: "\<not> strategy_is_finished demo_env (strats (demo_running 3) (strategy (gens (demo_running 3) 0)))"
    by code_simp
  have s1: "fst ?skip = Inl ExceptionAsContinue" by code_simp
  have s2: "?skip = (Inl ExceptionAsContinue, snd ?skip)"
    by (rule prod_eqI) (simp_all only: s1 fst_conv snd_conv)
  have r1: "fst ?ret = Inr 8" by code_simp
  have r2: "?ret = (Inr 8, snd ?ret)"
    by (rule prod_eqI) (simp_all only: r1 fst_conv snd_conv)
  have e1: "fst ?err = Inl (ValueError ''bad argument'')" by code_simp
  have e2: "?err = (Inl (ValueError ''bad argument''), snd ?err)"
    by (rule prod_eqI) (simp_all only: e1 fst_conv snd_conv)
  have ne: "ValueError ''bad argument'' \<noteq> ExceptionAsContinue" by simp
  have ns: "ValueError ''bad argument'' \<noteq> StopIteration_exn" by simp
  have x1: "fst ?stop = Inl StopIteration_exn" by code_simp
  have x2: "?stop = (Inl StopIteration_exn, snd ?stop)"
    by (rule prod_eqI) (simp_all only: x1 fst_conv snd_conv)
  note t2 = mp[OF conjunct1[OF conjunct2[OF skip_is_caught[where E=demo_env and n=3 and self=0
        and a=5 and w="demo_running 2" and ?w2.0="snd ?skip"]]] conjI[OF nf2 s2]]
  note t3 = mp[OF conjunct1[OF conjunct2[OF conjunct2[OF skip_is_caught[where E=demo_env and n=3
        and self=0 and a=5 and w="demo_running 3" and ?w2.0="snd ?ret" and v=8]]]] conjI[OF nf3 r2]]
  note t4 = mp[OF conjunct1[OF conjunct2[OF conjunct2[OF conjunct2[OF skip_is_caught[where
        E=demo_env and n=3 and self=0 and a=99 and w="demo_running 3" and ?w2.0="snd ?err"
        and e="ValueError ''bad argument''" and k=2]]]]] conjI[OF nf3 conjI[OF e2 conjI[OF ne ns]]]]
  note t5 = conjunct1[OF mp[OF conjunct2[OF conjunct2[OF conjunct2[OF conjunct2[OF
        skip_is_caught[where E=demo_env and n=3 and self=0 and a=98 and w="demo_running 3"
        and ?w2.0="snd ?stop"]]]]] conjI[OF nf3 x2]]]
  show ?thesis
    by (rule conjI[OF conjunct1[OF t1] conjI[OF conjunct2[OF t1] conjI[OF nf2 conjI[OF s1
          conjI[OF t2 conjI[OF r1 conjI[OF t3 conjI[OF e1 conjI[OF conjunct1[OF t4]
          conjI[OF conjunct2[OF t4] conjI[OF x1 t5]]]]]]]]]]])
qed

theorem closing_bracket_on_exceptions_witness:
  "compiled_func (gens (demo_running 2) 0) = Some (Compiled 0 0 0 [7]) \<and>
   \<not> strategy_is_finished demo_env (strats (demo_running 2) (strategy (gens (demo_running 2) 0))) \<and>
   fst (call_compiled_func demo_env 0 5 (generate_begin_run demo_env 0 5 (demo_running 2)))
     = Inl ExceptionAsContinue \<and>
   generate_loop (Suc 3) demo_env 0 5 (demo_running 2) =
     generate_loop 3 demo_env 0 5 (generate_end_run demo_env 0
       (snd (call_compiled_func demo_env 0 5 (generate_begin_run demo_env 0 5 (demo_running 2))))) \<and>
   events (generate_end_run demo_env 0
       (snd (call_compiled_func demo_env 0 5 (generate_begin_run demo_env 0 5 (demo_running 2))))) =
     events (demo_running 2) @ bracketed_run (gens (demo_running 2) 0) (Compiled 0 0 0 [7]) 5 \<and>
   fst (call_compiled_func demo_env 0 99 (generate_begin_run demo_env 0 99 (demo_running 3)))
     = Inl (ValueError ''bad argument'') \<and>
   generate_loop (Suc 3) demo_env 0 99 (demo_running 3) =
     Some (Raise (ValueError ''bad argument''), Closed,
       snd (call_compiled_func demo_env 0 99 (generate_begin_run demo_env 0 99 (demo_running 3)))) \<and>
   events (snd (call_compiled_func demo_env 0 99 (generate_begin_run demo_env 0 99 (demo_running 3)))) =
     events (demo_running 3) @ open_run (gens (demo_running 3) 0) (Compiled 0 0 0 [7]) 99 \<and>
   (\<exists>m. events (snd (snd (the (generate_loop (Suc 3) demo_env 0 99 (demo_running 3))))) =
     events (demo_running 3) @
     concat (replicate m (bracketed_run (gens (demo_running 3) 0) (Compiled 0 0 0 [7]) 99)) @
     open_run (gens (demo_running 3) 0) (Compiled 0 0 0 [7]) 99)"
proof -
  let ?skip = "call_compiled_func demo_env 0 5 (generate_begin_run demo_env 0 5 (demo_running 2))"
  let ?err = "call_compiled_func demo_env 0 99 (generate_begin_run demo_env 0 99 (demo_running 3))"
  let ?c = "Compiled 0 0 0 [7]"
  have c2: "compiled_func (gens (demo_running 2) 0) = Some ?c" by code_simp
  have c3: "compiled_func (gens (demo_running 3) 0) = Some ?c" by code_simp
  have nf2: "\<not> strategy_is_finished demo_env (strats (demo_running 2) (strategy (gens (demo_running 2) 0)))"
    by code_simp
  have nf3: "\<not> strategy_is_finished demo_env (strats (demo_running 3) (strategy (gens (demo_running 3) 0)))"
    by code_simp
  have s1: "fst ?skip = Inl ExceptionAsContinue" by code_simp
  have s2: "?skip = (Inl ExceptionAsContinue, snd ?skip)"
    by (rule prod_eqI) (simp_all only: s1 fst_conv snd_conv)
  have e1: "fst ?err = Inl (ValueError ''bad argument'')" by code_simp
  have e2: "?err = (Inl (ValueError ''bad argument''), snd ?err)"
    by (rule prod_eqI) (simp_all only: e1 fst_conv snd_conv)
  have ne: "ValueError ''bad argument'' \<noteq> ExceptionAsContinue" by simp
  note t1 = mp[OF conjunct1[OF closing_bracket_on_exceptions[where E=demo_env and n=3 and self=0
        and a=5 and w="demo_running 2" and ?w2.0="snd ?skip" and c="?c"]]
        conjI[OF c2 conjI[OF nf2 s2]]]
  note t2 = mp[OF conjunct1[OF conjunct2[OF closing_bracket_on_exceptions[where E=demo_env
        and n=3 and self=0 and a=99 and w="demo_running 3" and ?w2.0="snd ?err" and c="?c"
        and e="ValueError ''bad argument''" and k=0]]]
        conjI[OF c3 conjI[OF nf3 conjI[OF e2 ne]]]]
  have gr: "generator_raise (ValueError ''bad argument'') = ValueError ''bad argument''"
    by (simp add: generator_raise_def)
  have l0: "generate_loop (Suc 3) demo_env 0 99 (demo_running 3) =
              Some (Raise (ValueError ''bad argument''), Closed, snd ?err)"
    using conjunct1[OF t2] by (simp only: gr)
  have l: "generate_loop (Suc 3) demo_env 0 99 (demo_running 3) =
             Some (Raise (ValueError ''bad argument''), Closed,
                   snd (snd (the (generate_loop (Suc 3) demo_env 0 99 (demo_running 3)))))"
    by (simp only: l0 option.sel snd_conv)
  note t3 = mp[OF conjunct2[OF conjunct2[OF closing_bracket_on_exceptions[where E=demo_env
        and n="Suc 3" and self=0 and a=99 and w="demo_running 3" and c="?c"
        and e="ValueError ''bad argument''" and fr=Closed
        and w'="snd (snd (the (generate_loop (Suc 3) demo_env 0 99 (demo_running 3))))"]]]
        conjI[OF c3 l]]
  show ?thesis
    by (rule conjI[OF c2 conjI[OF nf2 conjI[OF s1 conjI[OF conjunct1[OF t1]
          conjI[OF conjunct2[OF t1] conjI[OF e1 conjI[OF l0
          conjI[OF conjunct1[OF conjunct2[OF t2]] t3]]]]]]]])
qed

section \<open>Properties of the cache\<close>

lemma for_each_invariant:
  assumes step: "\<And>x w r w'. P w \<Longrightarrow> body x w = (r, w') \<Longrightarrow> P w'"
  shows "P w \<Longrightarrow> for_each body xs w = (r, w') \<Longrightarrow> P w'"
proof (induction xs arbitrary: w)
  case Nil
  then show ?case by simp
next
  case (Cons x xs)
  obtain r1 w1 where b: "body x w = (r1, w1)" by (cases "body x w")
  have p1: "P w1" using step[OF Cons.prems(1) b] .
  show ?case
  proof (cases r1)
    case (Inl e)
    with b Cons.prems(2) p1 show ?thesis by simp
  next
    case (Inr u)
    with b Cons.prems(2) have "for_each body xs w1 = (r, w')" by simp
    with Cons.IH[OF p1] show ?thesis by simp
  qed
qed

lemma for_group_invariant:
  assumes step: "\<And>g w r w'. g \<noteq> self \<Longrightarrow> P w \<Longrightarrow> body g w = (r, w') \<Longrightarrow> P w'"
    and init: "P w" and run: "for_group self as_group body w = (r, w')"
  shows "P w'"
proof -
  let ?b = "\<lambda>g w'. if g \<noteq> self then body g w' else (Inr (), w')"
  have b: "\<And>x w r w'. P w \<Longrightarrow> ?b x w = (r, w') \<Longrightarrow> P w'"
    using step by (auto split: if_splits)
  consider (same) "w' = w" | (loop) ms where "for_each ?b ms w = (r, w')"
    using run
    by (auto simp: for_group_def get_group_by_name_def split: option.splits if_splits)
  then show ?thesis
  proof cases
    case same
    with init show ?thesis by simp
  next
    case loop
    show ?thesis by (rule for_each_invariant[where P=P and body="?b", OF b init loop])
  qed
qed

lemma cache_only_dropped_refl: "cache_only_dropped w w"
  by (simp add: cache_only_dropped_def)

lemma cache_only_dropped_trans:
  "cache_only_dropped w w1 \<Longrightarrow> cache_only_dropped w1 w2 \<Longrightarrow> cache_only_dropped w w2"
  unfolding cache_only_dropped_def by metis

lemma set_strategy_self_dropped:
  assumes "set_strategy_self E g arg w = (r, w')"
  shows "cache_only_dropped w w'"
proof -
  obtain x w1 where mk: "make_strategy E arg w = (x, w1)" by (cases "make_strategy E arg w")
  from make_strategy_frame[OF mk] have g: "gens w1 = gens w" by simp
  show ?thesis
    using assms mk g
    by (cases x) (auto simp: set_strategy_self_def cache_only_dropped_def)
qed

lemma register_hooks_self_dropped:
  "register_hooks_self g hs w = (r, w') \<Longrightarrow> cache_only_dropped w w'"
  by (auto simp: register_hooks_self_def cache_only_dropped_def)

lemma deregister_hook_self_dropped:
  "deregister_hook_self g h w = (r, w') \<Longrightarrow> cache_only_dropped w w'"
  by (auto simp: deregister_hook_self_def cache_only_dropped_def split: if_splits)

lemma for_group_dropped:
  assumes body: "\<And>g w r w'. body g w = (r, w') \<Longrightarrow> cache_only_dropped w w'"
    and run: "for_group self as_group body w1 = (r, w')" and init: "cache_only_dropped w w1"
  shows "cache_only_dropped w w'"
  by (rule for_group_invariant[where P="cache_only_dropped w", OF _ init run])
     (blast intro: cache_only_dropped_trans body)

lemma set_strategy_dropped:
  "set_strategy E g arg as_group w = (r, w') \<Longrightarrow> cache_only_dropped w w'"
proof -
  assume a: "set_strategy E g arg as_group w = (r, w')"
  obtain r1 w1 where s: "set_strategy_self E g arg w = (r1, w1)"
    by (cases "set_strategy_self E g arg w")
  note d1 = set_strategy_self_dropped[OF s]
  show ?thesis
  proof (cases r1)
    case (Inl e)
    with a s d1 show ?thesis by (simp add: set_strategy_def)
  next
    case (Inr u)
    with a s have "for_group g as_group
        (\<lambda>g' w'. set_strategy_self E g' (Instance (strategy (gens w' g))) w') w1 = (r, w')"
      by (simp add: set_strategy_def)
    from for_group_dropped[OF _ this d1] show ?thesis
      by (blast intro: set_strategy_self_dropped)
  qed
qed

lemma register_hooks_dropped:
  "register_hooks g hs as_group w = (r, w') \<Longrightarrow> cache_only_dropped w w'"
proof -
  assume a: "register_hooks g hs as_group w = (r, w')"
  obtain r1 w1 where s: "register_hooks_self g hs w = (r1, w1)"
    by (cases "register_hooks_self g hs w")
  note d1 = register_hooks_self_dropped[OF s]
  show ?thesis
  proof (cases r1)
    case (Inl e)
    with a s d1 show ?thesis by (simp add: register_hooks_def)
  next
    case (Inr u)
    with a s have "for_group g as_group (\<lambda>g' w'. register_hooks_self g' hs w') w1 = (r, w')"
      by (simp add: register_hooks_def)
    from for_group_dropped[OF _ this d1] show ?thesis
      by (blast intro: register_hooks_self_dropped)
  qed
qed

lemma deregister_hook_dropped:
  "deregister_hook g h as_group w = (r, w') \<Longrightarrow> cache_only_dropped w w'"
proof -
  assume a: "deregister_hook g h as_group w = (r, w')"
  obtain r1 w1 where s: "deregister_hook_self g h w = (r1, w1)"
    by (cases "deregister_hook_self g h w")
  note d1 = deregister_hook_self_dropped[OF s]
  show ?thesis
  proof (cases r1)
    case (Inl e)
    with a s d1 show ?thesis by (simp add: deregister_hook_def)
  next
    case (Inr u)
    with a s have "for_group g as_group (\<lambda>g' w'. deregister_hook_self g' h w') w1 = (r, w')"
      by (simp add: deregister_hook_def)
    from for_group_dropped[OF _ this d1] show ?thesis
      by (blast intro: deregister_hook_self_dropped)
  qed
qed

lemma dropped_keeps_none:
  "cache_only_dropped w w' \<Longrightarrow> compiled_func (gens w g) = None \<Longrightarrow> compiled_func (gens w' g) = None"
  unfolding cache_only_dropped_def by metis

lemma dropped_keeps_current:
  "cache_only_dropped w w' \<Longrightarrow> \<forall>g. cache_current w g \<Longrightarrow> cache_current w' g"
  unfolding cache_only_dropped_def cache_current_def
  by (metis option.simps(4))


lemma cache_current_cong: "gens w' = gens w \<Longrightarrow> cache_current w' g = cache_current w g"
  by (auto simp: cache_current_def split: option.splits)

lemma compile_if_needed_current:
  "\<forall>g. cache_current w g \<Longrightarrow> compile_if_needed E self w = (r, w') \<Longrightarrow> cache_current w' g"
  by (auto simp: compile_if_needed_def compile_func_def cache_current_def
           split: if_splits option.splits)

lemma compile_if_needed_compiles:
  assumes "compiled_func (gens w self) = None"
    and "compile_error E self (func (gens w self)) (strategy (gens w self)) (hooks (gens w self)) = None"
  shows "compile_if_needed E self w =
           (Inr (), w\<lparr>gens := (gens w)(self := (gens w self)\<lparr>compiled_func :=
              Some (Compiled self (func (gens w self)) (strategy (gens w self)) (hooks (gens w self)))\<rparr>)\<rparr>)"
  using assms by (simp add: compile_if_needed_def compile_func_def)

lemma generate_begin_gens:
  assumes "generate_begin E self a w = (r, w0)"
  obtains wc rc where "compile_if_needed E self w = (rc, wc)" and "gens w0 = gens wc"
    and "groups w0 = groups w" and "fresh w0 = fresh w"
proof -
  obtain rc wc where ci: "compile_if_needed E self w = (rc, wc)"
    by (cases "compile_if_needed E self w")
  note f = compile_if_needed_frame[OF ci]
  from assms ci f have "gens w0 = gens wc \<and> groups w0 = groups w \<and> fresh w0 = fresh w"
    by (cases rc) (auto simp: generate_begin_def strategy_call_def notify_eq Let_def)
  with ci that show ?thesis by blast
qed

lemma generate_next_gens:
  assumes "generate_next n E self a fr w = Some (sig, fr', w')"
  obtains wc rc where "compile_if_needed E self w = (rc, wc)" and "fr = Created" and "gens w' = gens wc"
  | "fr \<noteq> Created" and "gens w' = gens w"
proof (cases fr)
  case Created
  obtain r w0 where gb: "generate_begin E self a w = (r, w0)"
    by (cases "generate_begin E self a w")
  from gb obtain wc rc where ci: "compile_if_needed E self w = (rc, wc)" and g0: "gens w0 = gens wc"
    by (rule generate_begin_gens)
  have "gens w' = gens w0"
  proof (cases r)
    case (Inl e)
    with assms Created gb show ?thesis by (simp add: generate_next_def)
  next
    case (Inr u)
    with assms Created gb have "generate_loop n E self a w0 = Some (sig, fr', w')"
      by (simp add: generate_next_def)
    from generate_loop_frame[OF this] show ?thesis by simp
  qed
  with g0 ci Created that(1) show ?thesis by simp
next
  case Suspended
  with assms have "generate_loop n E self a (generate_end_run E self w) = Some (sig, fr', w')"
    by (simp add: generate_next_def)
  from generate_loop_frame[OF this] have "gens w' = gens w" by (simp add: generate_end_run_proj)
  with Suspended that(2) show ?thesis by simp
next
  case Closed
  with assms have "gens w' = gens w" by (simp add: generate_next_def)
  with Closed that(2) show ?thesis by simp
qed

lemma generate_next_frame:
  assumes "generate_next n E self a fr w = Some (sig, fr', w')"
  shows "groups w' = groups w" and "fresh w' = fresh w"
proof -
  have "groups w' = groups w \<and> fresh w' = fresh w"
  proof (cases fr)
    case Created
    obtain r w0 where gb: "generate_begin E self a w = (r, w0)"
      by (cases "generate_begin E self a w")
    from gb have f0: "groups w0 = groups w" "fresh w0 = fresh w"
      by (rule generate_begin_gens, simp)+
    show ?thesis
    proof (cases r)
      case (Inl e)
      with assms Created gb f0 show ?thesis by (simp add: generate_next_def)
    next
      case (Inr u)
      with assms Created gb have "generate_loop n E self a w0 = Some (sig, fr', w')"
        by (simp add: generate_next_def)
      from generate_loop_frame[OF this] f0 show ?thesis by simp
    qed
  next
    case Suspended
    with assms have "generate_loop n E self a (generate_end_run E self w) = Some (sig, fr', w')"
      by (simp add: generate_next_def)
    from generate_loop_frame[OF this] show ?thesis by (simp add: generate_end_run_proj)
  next
    case Closed
    with assms show ?thesis by (simp add: generate_next_def)
  qed
  then show "groups w' = groups w" and "fresh w' = fresh w" by simp_all
qed

lemma Generator_call_gens:
  assumes "Generator_call E self a w = (r, w')"
  obtains wc rc where "compile_if_needed E self w = (rc, wc)" and "gens w' = gens wc"
proof -
  obtain rc wc where ci: "compile_if_needed E self w = (rc, wc)"
    by (cases "compile_if_needed E self w")
  have "gens w' = gens wc"
  proof (cases rc)
    case (Inl e)
    with assms ci show ?thesis by (simp add: Generator_call_def)
  next
    case (Inr u)
    with assms ci have "call_compiled_func E self a wc = (r, w')" by (simp add: Generator_call_def)
    from call_compiled_func_frame[OF this] show ?thesis by simp
  qed
  with ci that show ?thesis by blast
qed

lemma perform_keeps_none:
  assumes p: "perform E r w = Some (x, w')" and nc: "\<not> compiles r g"
    and none: "compiled_func (gens w g) = None"
  shows "compiled_func (gens w' g) = None"
proof (cases r)
  case (Set_strategy g' arg ag)
  with p have "set_strategy E g' arg ag w = (x, w')" by simp
  from dropped_keeps_none[OF set_strategy_dropped[OF this] none] show ?thesis .
next
  case (Register_hooks g' hs ag)
  with p have "register_hooks g' hs ag w = (x, w')" by simp
  from dropped_keeps_none[OF register_hooks_dropped[OF this] none] show ?thesis .
next
  case (Deregister_hook g' h ag)
  with p have "deregister_hook g' h ag w = (x, w')" by simp
  from dropped_keeps_none[OF deregister_hook_dropped[OF this] none] show ?thesis .
next
  case (Call g' a)
  with nc have ne: "g \<noteq> g'" by auto
  obtain r1 w1 where gc: "Generator_call E g' a w = (r1, w1)"
    by (cases "Generator_call E g' a w")
  with p Call have w1: "w1 = w'" by (cases r1) auto
  from gc obtain wc rc where ci: "compile_if_needed E g' w = (rc, wc)" and g1: "gens w1 = gens wc"
    by (rule Generator_call_gens)
  from compile_if_needed_frame[OF ci] ne have "gens wc g = gens w g" by simp
  with g1 w1 none show ?thesis by simp
next
  case (Next n g' a fr)
  from p Next obtain sg fr' where nx: "generate_next n E g' a fr w = Some (sg, fr', w')"
    by (auto split: option.splits prod.splits signal.splits)
  from nx show ?thesis
  proof (cases rule: generate_next_gens)
    case (1 wc rc)
    with nc Next have ne: "g \<noteq> g'" by auto
    from compile_if_needed_frame[OF 1(1)] ne have "gens wc g = gens w g" by simp
    with 1(3) none show ?thesis by simp
  next
    case 2
    with none show ?thesis by simp
  qed
qed

lemma perform_keeps_current:
  assumes p: "perform E r w = Some (x, w')" and cur: "\<forall>g. cache_current w g"
  shows "cache_current w' g"
proof (cases r)
  case (Set_strategy g' arg ag)
  with p have "set_strategy E g' arg ag w = (x, w')" by simp
  from dropped_keeps_current[OF set_strategy_dropped[OF this] cur] show ?thesis .
next
  case (Register_hooks g' hs ag)
  with p have "register_hooks g' hs ag w = (x, w')" by simp
  from dropped_keeps_current[OF register_hooks_dropped[OF this] cur] show ?thesis .
next
  case (Deregister_hook g' h ag)
  with p have "deregister_hook g' h ag w = (x, w')" by simp
  from dropped_keeps_current[OF deregister_hook_dropped[OF this] cur] show ?thesis .
next
  case (Call g' a)
  obtain r1 w1 where gc: "Generator_call E g' a w = (r1, w1)"
    by (cases "Generator_call E g' a w")
  with p Call have w1: "w1 = w'" by (cases r1) auto
  from gc obtain wc rc where ci: "compile_if_needed E g' w = (rc, wc)" and g1: "gens w1 = gens wc"
    by (rule Generator_call_gens)
  from compile_if_needed_current[OF cur ci] cache_current_cong[OF g1] w1 show ?thesis by simp
next
  case (Next n g' a fr)
  from p Next obtain sg fr' where nx: "generate_next n E g' a fr w = Some (sg, fr', w')"
    by (auto split: option.splits prod.splits signal.splits)
  from nx show ?thesis
  proof (cases rule: generate_next_gens)
    case (1 wc rc)
    from compile_if_needed_current[OF cur 1(1)] cache_current_cong[OF 1(3)] show ?thesis by simp
  next
    case 2
    from cache_current_cong[OF 2(2)] cur show ?thesis by simp
  qed
qed

lemma perform_all_keeps_none:
  "perform_all E rs w = Some w' \<Longrightarrow> \<forall>r\<in>set rs. \<not> compiles r g \<Longrightarrow>
   compiled_func (gens w g) = None \<Longrightarrow> compiled_func (gens w' g) = None"
proof (induction rs arbitrary: w)
  case Nil
  then show ?case by simp
next
  case (Cons r rs)
  from Cons.prems(1) obtain x w1 where p: "perform E r w = Some (x, w1)"
    and rest: "perform_all E rs w1 = Some w'"
    by (auto split: option.splits prod.splits)
  from Cons.prems(2) have nc: "\<not> compiles r g" and ncs: "\<forall>r\<in>set rs. \<not> compiles r g" by simp_all
  from Cons.IH[OF rest ncs perform_keeps_none[OF p nc Cons.prems(3)]] show ?case .
qed

lemma perform_all_keeps_current:
  "perform_all E rs w = Some w' \<Longrightarrow> \<forall>g. cache_current w g \<Longrightarrow> \<forall>g. cache_current w' g"
proof (induction rs arbitrary: w)
  case Nil
  then show ?case by simp
next
  case (Cons r rs)
  from Cons.prems(1) obtain x w1 where p: "perform E r w = Some (x, w1)"
    and rest: "perform_all E rs w1 = Some w'"
    by (auto split: option.splits prod.splits)
  have "\<forall>g. cache_current w1 g" using perform_keeps_current[OF p Cons.prems(2)] by simp
  from Cons.IH[OF rest this] show ?case .
qed

lemma for_group_keeps_none:
  assumes body: "\<And>g w r w'. body g w = (r, w') \<Longrightarrow> cache_only_dropped w w'"
    and run: "for_group self as_group body w1 = (r, w')"
    and none: "compiled_func (gens w1 g) = None"
  shows "compiled_func (gens w' g) = None"
  using dropped_keeps_none[OF for_group_dropped[OF body run cache_only_dropped_refl] none] .

lemma configuration_drops_cache:
  assumes c: "configures m = Some self" and p: "perform E m w = Some (Inr u, w1)"
  shows "compiled_func (gens w1 self) = None"
proof (cases m)
  case (Set_strategy g arg ag)
  with c have g: "g = self" by simp
  from p Set_strategy g have s: "set_strategy E self arg ag w = (Inr u, w1)" by simp
  obtain r0 w0 where s0: "set_strategy_self E self arg w = (r0, w0)"
    by (cases "set_strategy_self E self arg w")
  with s obtain u0 where r0: "r0 = Inr u0" by (cases r0) (auto simp: set_strategy_def)
  from s0 r0 have none: "compiled_func (gens w0 self) = None"
    by (auto simp: set_strategy_self_def split: prod.splits sum.splits)
  from s s0 r0 have "for_group self ag
      (\<lambda>g' w'. set_strategy_self E g' (Instance (strategy (gens w' self))) w') w0 = (Inr u, w1)"
    by (simp add: set_strategy_def)
  from for_group_keeps_none[OF _ this none] show ?thesis
    by (blast intro: set_strategy_self_dropped)
next
  case (Register_hooks g hs ag)
  with c have g: "g = self" by simp
  from p Register_hooks g have s: "register_hooks self hs ag w = (Inr u, w1)" by simp
  obtain r0 w0 where s0: "register_hooks_self self hs w = (r0, w0)"
    by (cases "register_hooks_self self hs w")
  then have r0: "r0 = Inr ()" and none: "compiled_func (gens w0 self) = None"
    by (auto simp: register_hooks_self_def)
  from s s0 r0 have "for_group self ag (\<lambda>g' w'. register_hooks_self g' hs w') w0 = (Inr u, w1)"
    by (simp add: register_hooks_def)
  from for_group_keeps_none[OF _ this none] show ?thesis
    by (blast intro: register_hooks_self_dropped)
next
  case (Deregister_hook g h ag)
  with c have g: "g = self" by simp
  from p Deregister_hook g have s: "deregister_hook self h ag w = (Inr u, w1)" by simp
  obtain r0 w0 where s0: "deregister_hook_self self h w = (r0, w0)"
    by (cases "deregister_hook_self self h w")
  with s obtain u0 where r0: "r0 = Inr u0" by (cases r0) (auto simp: deregister_hook_def)
  from s0 r0 have none: "compiled_func (gens w0 self) = None"
    by (auto simp: deregister_hook_self_def split: if_splits)
  from s s0 r0 have "for_group self ag (\<lambda>g' w'. deregister_hook_self g' h w') w0 = (Inr u, w1)"
    by (simp add: deregister_hook_def)
  from for_group_keeps_none[OF _ this none] show ?thesis
    by (blast intro: deregister_hook_self_dropped)
next
  case (Call g a)
  with c show ?thesis by simp
next
  case (Next n g a fr)
  with c show ?thesis by simp
qed


text \<open>
  C3. A call of \<^verbatim>\<open>set_strategy\<close>, \<^verbatim>\<open>register_hooks\<close> or \<^verbatim>\<open>deregister_hook\<close> on a
  generator that succeeds leaves that generator's cache empty, and the cache stays
  empty through whatever calls follow, until one of them is the generator's direct call
  or the first \<^verbatim>\<open>next\<close> of its \<^verbatim>\<open>generate\<close>. With the cache empty and compilation
  succeeding, the direct call and the first \<^verbatim>\<open>next\<close> of \<^verbatim>\<open>generate\<close> leave in the
  cache the compilation of the generator's function against the strategy and the hook
  list it has at that moment. And through any sequence of calls, a cache that is not
  empty holds the compilation against the generator's present strategy and hook list.
\<close>

theorem cache_invalidation:
  "(configures m = Some self \<and> perform E m w = Some (Inr u, w1) \<longrightarrow>
      compiled_func (gens w1 self) = None \<and>
      (perform_all E rs w1 = Some w2 \<and> (\<forall>r\<in>set rs. \<not> compiles r self) \<longrightarrow>
         compiled_func (gens w2 self) = None)) \<and>
   (compiled_func (gens w self) = None \<and>
    compile_error E self (func (gens w self)) (strategy (gens w self)) (hooks (gens w self)) = None \<longrightarrow>
      compiled_func (gens (snd (Generator_call E self a w)) self) =
        Some (Compiled self (func (gens w self)) (strategy (gens w self)) (hooks (gens w self))) \<and>
      (generate_next n E self a Created w = Some (sig, fr, w') \<longrightarrow>
         compiled_func (gens w' self) =
           Some (Compiled self (func (gens w self)) (strategy (gens w self)) (hooks (gens w self))))) \<and>
   ((\<forall>g. cache_current w g) \<and> perform_all E rs w = Some w3 \<longrightarrow> (\<forall>g. cache_current w3 g))"
proof (intro conjI impI)
  assume a: "configures m = Some self \<and> perform E m w = Some (Inr u, w1)"
  then show n1: "compiled_func (gens w1 self) = None"
    using configuration_drops_cache by blast
  assume "perform_all E rs w1 = Some w2 \<and> (\<forall>r\<in>set rs. \<not> compiles r self)"
  then show "compiled_func (gens w2 self) = None"
    using perform_all_keeps_none n1 by blast
next
  assume a: "compiled_func (gens w self) = None \<and>
    compile_error E self (func (gens w self)) (strategy (gens w self)) (hooks (gens w self)) = None"
  let ?c = "Compiled self (func (gens w self)) (strategy (gens w self)) (hooks (gens w self))"
  let ?wc = "w\<lparr>gens := (gens w)(self := (gens w self)\<lparr>compiled_func := Some ?c\<rparr>)\<rparr>"
  from a have ci: "compile_if_needed E self w = (Inr (), ?wc)"
    using compile_if_needed_compiles by blast
  obtain r1 w1' where gc: "Generator_call E self a w = (r1, w1')"
    by (cases "Generator_call E self a w")
  from gc obtain wc rc where "compile_if_needed E self w = (rc, wc)" and "gens w1' = gens wc"
    by (rule Generator_call_gens)
  with ci have "gens w1' = gens ?wc" by simp
  then show "compiled_func (gens (snd (Generator_call E self a w)) self) = Some ?c"
    by (simp add: gc)
  assume nx: "generate_next n E self a Created w = Some (sig, fr, w')"
  from nx have "gens w' = gens ?wc"
  proof (cases rule: generate_next_gens)
    case (1 wc rc)
    with ci show ?thesis by simp
  next
    case 2
    then show ?thesis by simp
  qed
  then show "compiled_func (gens w' self) = Some ?c" by simp
next
  assume "(\<forall>g. cache_current w g) \<and> perform_all E rs w = Some w3"
  then show "\<forall>g. cache_current w3 g"
    using perform_all_keeps_current by blast
qed

theorem cache_invalidation_witness:
  "configures (Set_strategy 1 (Instance 5) True :: nat request) = Some 1 \<and>
   map_option fst (perform demo_env (Set_strategy 1 (Instance 5) True) demo_world) = Some (Inr ()) \<and>
   compiled_func (gens demo_world 1) = Some (Compiled 1 1 0 []) \<and>
   compiled_func (gens (snd (the (perform demo_env (Set_strategy 1 (Instance 5) True) demo_world))) 1)
     = None \<and>
   \<not> Option.is_none (perform_all demo_env [Call 0 5, Register_hooks 2 [9] True, Next 4 1 5 Suspended]
        (snd (the (perform demo_env (Set_strategy 1 (Instance 5) True) demo_world)))) \<and>
   compiled_func (gens (the (perform_all demo_env
        [Call 0 5, Register_hooks 2 [9] True, Next 4 1 5 Suspended]
        (snd (the (perform demo_env (Set_strategy 1 (Instance 5) True) demo_world))))) 1) = None \<and>
   compiled_func (gens demo_world 0) = None \<and>
   compiled_func (gens (snd (Generator_call demo_env 0 5 demo_world)) 0)
     = Some (Compiled 0 0 0 [7]) \<and>
   cache_current (the (perform_all demo_env [Call 0 5, Register_hooks 2 [9] True, Next 4 1 5 Suspended]
        demo_world)) 0"
proof -
  let ?m = "Set_strategy 1 (Instance 5) True :: nat request"
  let ?rs = "[Call 0 5, Register_hooks 2 [9] True, Next 4 1 5 Suspended] :: nat request list"
  let ?P = "perform demo_env ?m demo_world"
  let ?w1 = "snd (the ?P)"
  have c: "configures ?m = Some 1" by simp
  have p1: "map_option fst ?P = Some (Inr ())" by code_simp
  then have p: "?P = Some (Inr (), ?w1)" by (cases ?P) auto
  have before: "compiled_func (gens demo_world 1) = Some (Compiled 1 1 0 [])" by code_simp
  have q1: "\<not> Option.is_none (perform_all demo_env ?rs ?w1)" by code_simp
  then have q: "perform_all demo_env ?rs ?w1 = Some (the (perform_all demo_env ?rs ?w1))"
    by (cases "perform_all demo_env ?rs ?w1") simp_all
  have nc: "\<forall>r\<in>set ?rs. \<not> compiles r 1" by simp
  note t1 = mp[OF conjunct1[OF cache_invalidation[where m="?m" and self=1 and E=demo_env
        and w=demo_world and u="()" and ?w1.0="?w1" and rs="?rs"
        and ?w2.0="the (perform_all demo_env ?rs ?w1)"]] conjI[OF c p]]
  note t1b = mp[OF conjunct2[OF t1] conjI[OF q nc]]
  have n0: "compiled_func (gens demo_world 0) = None" by code_simp
  have ce: "compile_error demo_env 0 (func (gens demo_world 0)) (strategy (gens demo_world 0))
              (hooks (gens demo_world 0)) = None" by code_simp
  note t2 = conjunct1[OF mp[OF conjunct1[OF conjunct2[OF cache_invalidation[where self=0
        and E=demo_env and w=demo_world and a=5]]] conjI[OF n0 ce]]]
  have g0: "func (gens demo_world 0) = 0" "strategy (gens demo_world 0) = 0"
    "hooks (gens demo_world 0) = [7]" by code_simp+
  have t2': "compiled_func (gens (snd (Generator_call demo_env 0 5 demo_world)) 0)
     = Some (Compiled 0 0 0 [7])"
    using t2 by (simp only: g0)
  have cur: "\<forall>g. cache_current demo_world g"
    by (simp add: cache_current_def demo_world_def)
  have r1: "\<not> Option.is_none (perform_all demo_env ?rs demo_world)" by code_simp
  then have r: "perform_all demo_env ?rs demo_world = Some (the (perform_all demo_env ?rs demo_world))"
    by (cases "perform_all demo_env ?rs demo_world") simp_all
  note t3 = mp[OF conjunct2[OF conjunct2[OF cache_invalidation[where E=demo_env and w=demo_world
        and rs="?rs" and ?w3.0="the (perform_all demo_env ?rs demo_world)"]]] conjI[OF cur r]]
  show ?thesis
    by (rule conjI[OF c conjI[OF p1 conjI[OF before conjI[OF conjunct1[OF t1] conjI[OF q1
          conjI[OF t1b conjI[OF n0 conjI[OF t2' spec[OF t3]]]]]]]]])
qed

section \<open>Properties of tracing\<close>

lemma register_hooks_group_ok:
  assumes grp: "group (gens w self) = Some n" and reg: "groups w n = Some ms" and d: "distinct ms"
  shows "register_hooks self hs True w =
    (Inr (), w\<lparr>gens := (\<lambda>x. if x \<in> set ms \<or> x = self
                 then (gens w x)\<lparr>compiled_func := None, hooks := hooks (gens w x) @ hs\<rparr>
                 else gens w x)\<rparr>)"
proof -
  let ?w1 = "w\<lparr>gens := (gens w)(self := (gens w self)\<lparr>compiled_func := None,
                 hooks := hooks (gens w self) @ hs\<rparr>)\<rparr>"
  have self: "register_hooks_self self hs w = (Inr (), ?w1)"
    by (simp add: register_hooks_self_def)
  have g1: "group (gens ?w1 self) = Some n" "groups ?w1 n = Some ms" using grp reg by simp_all
  have "register_hooks self hs True w =
      (Inr (), ?w1\<lparr>gens := (\<lambda>x. if x \<in> set ms \<and> x \<noteq> self
                 then (gens ?w1 x)\<lparr>compiled_func := None, hooks := hooks (gens ?w1 x) @ hs\<rparr>
                 else gens ?w1 x)\<rparr>)"
    unfolding register_hooks_def self
    by (simp only: prod.case sum.case for_group_def g1 option.case if_True
          get_group_by_name_def for_each_register_hooks[OF d])
  also have "\<dots> = (Inr (), w\<lparr>gens := (\<lambda>x. if x \<in> set ms \<or> x = self
                 then (gens w x)\<lparr>compiled_func := None, hooks := hooks (gens w x) @ hs\<rparr>
                 else gens w x)\<rparr>)"
    by simp (rule arg_cong[where f="\<lambda>f. w\<lparr>gens := f\<rparr>"], auto simp: fun_eq_iff)
  finally show ?thesis .
qed

lemma deregister_hook_group_ok:
  assumes grp: "group (gens w self) = Some n" and reg: "groups w n = Some ms" and d: "distinct ms"
    and all: "\<forall>g. g \<in> set ms \<or> g = self \<longrightarrow> h \<in> set (hooks (gens w g))"
  shows "deregister_hook self h True w =
    (Inr (), w\<lparr>gens := (\<lambda>x. if x \<in> set ms \<or> x = self
                 then (gens w x)\<lparr>compiled_func := None, hooks := remove1 h (hooks (gens w x))\<rparr>
                 else gens w x)\<rparr>)"
proof -
  let ?w1 = "w\<lparr>gens := (gens w)(self := (gens w self)\<lparr>compiled_func := None,
                 hooks := remove1 h (hooks (gens w self))\<rparr>)\<rparr>"
  have self: "deregister_hook_self self h w = (Inr (), ?w1)"
    using all by (simp add: deregister_hook_self_def list_all_iff)
  have g1: "group (gens ?w1 self) = Some n" "groups ?w1 n = Some ms" using grp reg by simp_all
  have others: "\<forall>g\<in>set ms. g \<noteq> self \<longrightarrow> h \<in> set (hooks (gens ?w1 g))" using all by simp
  have "deregister_hook self h True w =
      (Inr (), ?w1\<lparr>gens := (\<lambda>x. if x \<in> set ms \<and> x \<noteq> self
                 then (gens ?w1 x)\<lparr>compiled_func := None, hooks := remove1 h (hooks (gens ?w1 x))\<rparr>
                 else gens ?w1 x)\<rparr>)"
    unfolding deregister_hook_def self
    by (simp only: prod.case sum.case for_group_def g1 option.case if_True
          get_group_by_name_def for_each_deregister_hook_ok[OF d others])
  also have "\<dots> = (Inr (), w\<lparr>gens := (\<lambda>x. if x \<in> set ms \<or> x = self
                 then (gens w x)\<lparr>compiled_func := None, hooks := remove1 h (hooks (gens w x))\<rparr>
                 else gens w x)\<rparr>)"
    by simp (rule arg_cong[where f="\<lambda>f. w\<lparr>gens := f\<rparr>"], auto simp: fun_eq_iff)
  finally show ?thesis .
qed

lemma generate_next_config:
  assumes "generate_next n E self a fr w = Some (sig, fr', w')"
  shows "groups w' = groups w"
    and "hooks (gens w' g) = hooks (gens w g)"
    and "group (gens w' g) = group (gens w g)"
proof -
  show "groups w' = groups w" by (rule generate_next_frame(1)[OF assms])
  from assms have "hooks (gens w' g) = hooks (gens w g) \<and> group (gens w' g) = group (gens w g)"
  proof (cases rule: generate_next_gens)
    case (1 wc rc)
    from compile_if_needed_frame[OF 1(1)] 1(3) show ?thesis by simp
  next
    case 2
    then show ?thesis by simp
  qed
  then show "hooks (gens w' g) = hooks (gens w g)" and "group (gens w' g) = group (gens w g)"
    by simp_all
qed

lemma pulls_trace_closed:
  "pulls k (trace_next n E self a) Trace_closed w = Some (replicate k StopIteration, Trace_closed, w)"
  by (induction k) (simp_all add: trace_next_def)

lemma trace_resume_step:
  assumes grp: "group (gens w self) = Some n" and reg: "groups w n = Some ms" and d: "distinct ms"
    and hk: "\<forall>g. hooks (gens w g) = (if g \<in> set ms \<or> g = self then H g @ [t] else H g)"
    and nt: "\<forall>g. t \<notin> set (H g)"
    and r: "trace_resume k E self a t fr w = Some (sig, tf, w')"
  shows "sig = StopIteration \<Longrightarrow>
           tf = Trace_closed \<and> (\<forall>g. hooks (gens w' g) = H g) \<and>
           (\<forall>g. g \<in> set ms \<or> g = self \<longrightarrow> compiled_func (gens w' g) = None)"
    and "sig \<noteq> StopIteration \<Longrightarrow>
           group (gens w' self) = Some n \<and> groups w' n = Some ms \<and>
           (\<forall>g. hooks (gens w' g) = (if g \<in> set ms \<or> g = self then H g @ [t] else H g))"
    and "sig = Yield y \<Longrightarrow> \<exists>fr'. tf = Trace_running t fr'"
    and "sig = Raise e \<Longrightarrow> tf = Trace_closed"
proof -
  from r obtain sg fr1 w1 where nx: "generate_next k E self a fr w = Some (sg, fr1, w1)"
    by (auto simp: trace_resume_def split: option.splits)
  note cfg = generate_next_config[OF nx]
  have grp1: "group (gens w1 self) = Some n" and reg1: "groups w1 n = Some ms"
    and hk1: "\<forall>g. hooks (gens w1 g) = (if g \<in> set ms \<or> g = self then H g @ [t] else H g)"
    using cfg grp reg hk by simp_all
  have all: "\<forall>g. g \<in> set ms \<or> g = self \<longrightarrow> t \<in> set (hooks (gens w1 g))"
    using hk1 by simp
  note dr = deregister_hook_group_ok[OF grp1 reg1 d all]
  have rm: "\<And>g. remove1 t (H g @ [t]) = H g" using nt by (simp add: remove1_append)
  show "sig = StopIteration \<Longrightarrow>
           tf = Trace_closed \<and> (\<forall>g. hooks (gens w' g) = H g) \<and>
           (\<forall>g. g \<in> set ms \<or> g = self \<longrightarrow> compiled_func (gens w' g) = None)"
  proof -
    assume s: "sig = StopIteration"
    with r nx have sg: "sg = StopIteration"
      by (cases sg) (auto simp: trace_resume_def split: prod.splits sum.splits)
    with r nx dr s have "tf = Trace_closed" and
      w': "w' = w1\<lparr>gens := (\<lambda>x. if x \<in> set ms \<or> x = self
                 then (gens w1 x)\<lparr>compiled_func := None, hooks := remove1 t (hooks (gens w1 x))\<rparr>
                 else gens w1 x)\<rparr>"
      by (simp_all add: trace_resume_def)
    then show ?thesis using hk1 rm by simp
  qed
  have ns: "sig \<noteq> StopIteration \<Longrightarrow> w' = w1"
  proof -
    assume s: "sig \<noteq> StopIteration"
    show ?thesis
    proof (cases sg)
      case (Yield v)
      with r nx show ?thesis by (auto simp: trace_resume_def)
    next
      case StopIteration
      with r nx dr s show ?thesis by (simp add: trace_resume_def)
    next
      case (Raise e')
      with r nx show ?thesis by (auto simp: trace_resume_def)
    qed
  qed
  show "sig \<noteq> StopIteration \<Longrightarrow>
           group (gens w' self) = Some n \<and> groups w' n = Some ms \<and>
           (\<forall>g. hooks (gens w' g) = (if g \<in> set ms \<or> g = self then H g @ [t] else H g))"
    using ns grp1 reg1 hk1 by simp
  show "sig = Yield y \<Longrightarrow> \<exists>fr'. tf = Trace_running t fr'"
    using r nx by (cases sg) (auto simp: trace_resume_def split: prod.splits sum.splits)
  show "sig = Raise e \<Longrightarrow> tf = Trace_closed"
    using r nx by (cases sg) (auto simp: trace_resume_def split: prod.splits sum.splits)
qed

lemma pulls_trace_running:
  assumes d: "distinct ms" and nt: "\<forall>g. t \<notin> set (H g)"
  shows "group (gens w self) = Some n \<Longrightarrow> groups w n = Some ms \<Longrightarrow>
     \<forall>g. hooks (gens w g) = (if g \<in> set ms \<or> g = self then H g @ [t] else H g) \<Longrightarrow>
     pulls k (trace_next i E self a) (Trace_running t fr) w = Some (ss, tf, w') \<Longrightarrow>
     (outcome ss = Some StopIteration \<longrightarrow>
        (\<forall>g. hooks (gens w' g) = H g) \<and>
        (\<forall>g. g \<in> set ms \<or> g = self \<longrightarrow> compiled_func (gens w' g) = None)) \<and>
     (outcome ss \<noteq> Some StopIteration \<longrightarrow>
        (\<forall>g. hooks (gens w' g) = (if g \<in> set ms \<or> g = self then H g @ [t] else H g)))"
proof (induction k arbitrary: fr w ss)
  case 0
  then show ?case by simp
next
  case (Suc k)
  from Suc.prems(4) obtain s tf1 w1 ss' where
    nx: "trace_next i E self a (Trace_running t fr) w = Some (s, tf1, w1)"
    and rest: "pulls k (trace_next i E self a) tf1 w1 = Some (ss', tf, w')"
    and ss: "ss = s # ss'"
    by (rule pulls_Suc_elim)
  from nx have r: "trace_resume i E self a t fr w = Some (s, tf1, w1)"
    by (simp add: trace_next_def)
  note st = trace_resume_step[OF Suc.prems(1) Suc.prems(2) d Suc.prems(3) nt r]
  show ?case
  proof (cases s)
    case (Yield y)
    from st(3)[OF Yield] obtain fr' where tf1: "tf1 = Trace_running t fr'" by blast
    from st(2) Yield have inv: "group (gens w1 self) = Some n" "groups w1 n = Some ms"
      "\<forall>g. hooks (gens w1 g) = (if g \<in> set ms \<or> g = self then H g @ [t] else H g)"
      by simp_all
    from Suc.IH[OF inv rest[unfolded tf1]] ss Yield show ?thesis by simp
  next
    case StopIteration
    from st(1)[OF StopIteration] have tf1: "tf1 = Trace_closed"
      and rst: "\<forall>g. hooks (gens w1 g) = H g"
        "\<forall>g. g \<in> set ms \<or> g = self \<longrightarrow> compiled_func (gens w1 g) = None"
      by simp_all
    from rest tf1 have "w' = w1" by (simp add: pulls_trace_closed)
    with rst ss StopIteration show ?thesis by simp
  next
    case (Raise e)
    from st(4)[OF Raise] have tf1: "tf1 = Trace_closed" .
    from st(2) Raise have inv:
      "\<forall>g. hooks (gens w1 g) = (if g \<in> set ms \<or> g = self then H g @ [t] else H g)"
      by simp
    from rest tf1 have "w' = w1" by (simp add: pulls_trace_closed)
    with inv ss Raise show ?thesis by simp
  qed
qed

text \<open>
  C10. Let \<open>self\<close> belong to a registered group with distinct members \<open>ms\<close>, and let
  the next unused reference, which becomes the tracer, be in no hook list. The first
  \<^verbatim>\<open>next\<close> of \<^verbatim>\<open>trace\<close> registers the tracer with \<^verbatim>\<open>as_group=True\<close>: that succeeds and
  leaves every member of the group, \<open>self\<close> included, with the tracer appended to its
  hook list and an empty cache, and every other generator as it was; the enumeration
  then starts from that state. After any positive number of calls of \<^verbatim>\<open>next\<close>: if the
  first signal that is not a value was StopIteration, every generator has the hook list
  it had before and every member of the group has an empty cache; in every other case
  (values only so far, or an exception) the tracer is still at the end of every
  member's hook list.
\<close>

theorem trace_registers_tracer:
  assumes grp: "group (gens w self) = Some n" and reg: "groups w n = Some ms" and d: "distinct ms"
    and nw: "\<forall>g. fresh w \<notin> set (hooks (gens w g))"
  shows "fst (register_hooks self [fresh w] True (w\<lparr>fresh := Suc (fresh w)\<rparr>)) = Inr () \<and>
         (\<forall>g. gens (snd (register_hooks self [fresh w] True (w\<lparr>fresh := Suc (fresh w)\<rparr>))) g =
            (if g \<in> set ms \<or> g = self
             then (gens w g)\<lparr>compiled_func := None, hooks := hooks (gens w g) @ [fresh w]\<rparr>
             else gens w g)) \<and>
         trace_next i E self a Trace_created w =
           trace_resume i E self a (fresh w) Created
             (snd (register_hooks self [fresh w] True (w\<lparr>fresh := Suc (fresh w)\<rparr>))) \<and>
         (pulls (Suc k) (trace_next i E self a) Trace_created w = Some (ss, tf, w') \<longrightarrow>
            (outcome ss = Some StopIteration \<longrightarrow>
               (\<forall>g. hooks (gens w' g) = hooks (gens w g)) \<and>
               (\<forall>g. g \<in> set ms \<or> g = self \<longrightarrow> compiled_func (gens w' g) = None)) \<and>
            (outcome ss \<noteq> Some StopIteration \<longrightarrow>
               (\<forall>g. hooks (gens w' g) =
                  (if g \<in> set ms \<or> g = self then hooks (gens w g) @ [fresh w]
                   else hooks (gens w g)))))"
proof -
  let ?t = "fresh w"
  let ?w0 = "w\<lparr>fresh := Suc (fresh w)\<rparr>"
  let ?w1 = "?w0\<lparr>gens := (\<lambda>x. if x \<in> set ms \<or> x = self
                 then (gens ?w0 x)\<lparr>compiled_func := None, hooks := hooks (gens ?w0 x) @ [?t]\<rparr>
                 else gens ?w0 x)\<rparr>"
  have grp0: "group (gens ?w0 self) = Some n" and reg0: "groups ?w0 n = Some ms"
    using grp reg by simp_all
  have rg: "register_hooks self [?t] True ?w0 = (Inr (), ?w1)"
    by (rule register_hooks_group_ok[OF grp0 reg0 d])
  have first: "trace_next i E self a Trace_created w = trace_resume i E self a ?t Created ?w1"
    by (simp add: trace_next_def Let_def rg)
  have inv: "group (gens ?w1 self) = Some n" "groups ?w1 n = Some ms"
    "\<forall>g. hooks (gens ?w1 g) =
        (if g \<in> set ms \<or> g = self then hooks (gens w g) @ [?t] else hooks (gens w g))"
    using grp reg by simp_all
  have same: "pulls (Suc k) (trace_next i E self a) Trace_created w =
              pulls (Suc k) (trace_next i E self a) (Trace_running ?t Created) ?w1"
    by (simp add: first) (simp add: trace_next_def)
  have p: "pulls (Suc k) (trace_next i E self a) Trace_created w = Some (ss, tf, w') \<longrightarrow>
            (outcome ss = Some StopIteration \<longrightarrow>
               (\<forall>g. hooks (gens w' g) = hooks (gens w g)) \<and>
               (\<forall>g. g \<in> set ms \<or> g = self \<longrightarrow> compiled_func (gens w' g) = None)) \<and>
            (outcome ss \<noteq> Some StopIteration \<longrightarrow>
               (\<forall>g. hooks (gens w' g) =
                  (if g \<in> set ms \<or> g = self then hooks (gens w g) @ [?t]
                   else hooks (gens w g))))"
  proof
    assume "pulls (Suc k) (trace_next i E self a) Trace_created w = Some (ss, tf, w')"
    then have "pulls (Suc k) (trace_next i E self a) (Trace_running ?t Created) ?w1 = Some (ss, tf, w')"
      by (simp only: same)
    from pulls_trace_running[where H="\<lambda>g. hooks (gens w g)", OF d nw inv this]
    show "(outcome ss = Some StopIteration \<longrightarrow>
               (\<forall>g. hooks (gens w' g) = hooks (gens w g)) \<and>
               (\<forall>g. g \<in> set ms \<or> g = self \<longrightarrow> compiled_func (gens w' g) = None)) \<and>
            (outcome ss \<noteq> Some StopIteration \<longrightarrow>
               (\<forall>g. hooks (gens w' g) =
                  (if g \<in> set ms \<or> g = self then hooks (gens w g) @ [?t]
                   else hooks (gens w g))))" .
  qed
  have a: "fst (register_hooks self [?t] True ?w0) = Inr ()" by (simp add: rg)
  have b: "\<forall>g. gens (snd (register_hooks self [?t] True ?w0)) g =
            (if g \<in> set ms \<or> g = self
             then (gens w g)\<lparr>compiled_func := None, hooks := hooks (gens w g) @ [?t]\<rparr>
             else gens w g)"
    by (simp add: rg)
  have c: "trace_next i E self a Trace_created w =
           trace_resume i E self a ?t Created (snd (register_hooks self [?t] True ?w0))"
    by (simp only: first rg snd_conv)
  show ?thesis by (rule conjI[OF a conjI[OF b conjI[OF c p]]])
qed


theorem trace_registers_tracer_witness:
  "group (gens demo_world 0) = Some ''G'' \<and> groups demo_world ''G'' = Some [0, 1] \<and>
   distinct [0, 1 :: nat] \<and> fresh demo_world = 10 \<and>
   hooks (gens (snd (register_hooks 0 [fresh demo_world] True
                  (demo_world\<lparr>fresh := Suc (fresh demo_world)\<rparr>))) 1) = [10] \<and>
   compiled_func (gens (snd (register_hooks 0 [fresh demo_world] True
                  (demo_world\<lparr>fresh := Suc (fresh demo_world)\<rparr>))) 1) = None \<and>
   outcome (fst (the (pulls (Suc 2) (trace_next 5 demo_env 0 5) Trace_created demo_world)))
     = Some StopIteration \<and>
   hooks (gens (snd (snd (the (pulls (Suc 2) (trace_next 5 demo_env 0 5) Trace_created demo_world)))) 0)
     = [7] \<and>
   hooks (gens (snd (snd (the (pulls (Suc 2) (trace_next 5 demo_env 0 5) Trace_created demo_world)))) 1)
     = [] \<and>
   compiled_func
     (gens (snd (snd (the (pulls (Suc 2) (trace_next 5 demo_env 0 5) Trace_created demo_world)))) 1)
     = None \<and>
   outcome (fst (the (pulls (Suc 0) (trace_next 5 demo_env 0 5) Trace_created demo_world))) = None \<and>
   hooks (gens (snd (snd (the (pulls (Suc 0) (trace_next 5 demo_env 0 5) Trace_created demo_world)))) 1)
     = [10] \<and>
   outcome (fst (the (pulls (Suc 0) (trace_next 5 demo_env 0 99) Trace_created demo_world)))
     = Some (Raise (ValueError ''bad argument'')) \<and>
   hooks (gens (snd (snd (the (pulls (Suc 0) (trace_next 5 demo_env 0 99) Trace_created demo_world)))) 1)
     = [10]"
proof -
  let ?P3 = "pulls (Suc 2) (trace_next 5 demo_env 0 5) Trace_created demo_world"
  let ?P1 = "pulls (Suc 0) (trace_next 5 demo_env 0 5) Trace_created demo_world"
  let ?Pe = "pulls (Suc 0) (trace_next 5 demo_env 0 99) Trace_created demo_world"
  let ?R = "register_hooks 0 [fresh demo_world] True (demo_world\<lparr>fresh := Suc (fresh demo_world)\<rparr>)"
  have h1: "group (gens demo_world 0) = Some ''G''" by (simp add: demo_world_def)
  have h2: "groups demo_world ''G'' = Some [0, 1]" by (simp add: demo_world_def)
  have h3: "distinct [0, 1 :: nat]" by simp
  have h4: "\<forall>g. fresh demo_world \<notin> set (hooks (gens demo_world g))"
    by (simp add: demo_world_def)
  have f: "fresh demo_world = 10" by (simp add: demo_world_def)
  have k0: "hooks (gens demo_world 0) = [7]" and k1: "hooks (gens demo_world 1) = []"
    by (simp_all add: demo_world_def)
  have k1': "hooks (gens demo_world (Suc 0)) = []" by (simp add: demo_world_def)
  have in0: "0 \<in> set [0, 1 :: nat] \<or> (0 :: nat) = 0" and in1: "1 \<in> set [0, 1 :: nat] \<or> (1 :: nat) = 0"
    by simp_all
  \<comment> \<open>the enumeration consumed to its end\<close>
  have n3: "\<not> Option.is_none ?P3" by code_simp
  then have p3: "?P3 = Some (fst (the ?P3), fst (snd (the ?P3)), snd (snd (the ?P3)))"
    by (cases ?P3) simp_all
  have o3: "outcome (fst (the ?P3)) = Some StopIteration" by code_simp
  note t = trace_registers_tracer[OF h1 h2 h3 h4, where i=5 and E=demo_env and a=5 and k=2
      and ss="fst (the ?P3)" and tf="fst (snd (the ?P3))" and w'="snd (snd (the ?P3))"]
  note reg = conjunct1[OF conjunct2[OF t]]
  note t3 = mp[OF conjunct1[OF mp[OF conjunct2[OF conjunct2[OF conjunct2[OF t]]] p3]] o3]
  have r1: "hooks (gens (snd ?R) 1) = [10]"
    using spec[OF reg, of 1] in1 by (simp add: k1' f)
  have r2: "compiled_func (gens (snd ?R) 1) = None"
    using spec[OF reg, of 1] in1 by simp
  have a0: "hooks (gens (snd (snd (the ?P3))) 0) = [7]"
    using spec[OF conjunct1[OF t3], of 0] by (simp only: k0)
  have a1: "hooks (gens (snd (snd (the ?P3))) 1) = []"
    using spec[OF conjunct1[OF t3], of 1] by (simp only: k1)
  have a2: "compiled_func (gens (snd (snd (the ?P3))) 1) = None"
    by (rule mp[OF spec[OF conjunct2[OF t3], of 1] in1])
  \<comment> \<open>the enumeration abandoned after its first value\<close>
  have n1: "\<not> Option.is_none ?P1" by code_simp
  then have p1: "?P1 = Some (fst (the ?P1), fst (snd (the ?P1)), snd (snd (the ?P1)))"
    by (cases ?P1) simp_all
  have o1: "outcome (fst (the ?P1)) = None" by code_simp
  then have o1': "outcome (fst (the ?P1)) \<noteq> Some StopIteration" by simp
  note u = trace_registers_tracer[OF h1 h2 h3 h4, where i=5 and E=demo_env and a=5 and k=0
      and ss="fst (the ?P1)" and tf="fst (snd (the ?P1))" and w'="snd (snd (the ?P1))"]
  note u1 = mp[OF conjunct2[OF mp[OF conjunct2[OF conjunct2[OF conjunct2[OF u]]] p1]] o1']
  have b1: "hooks (gens (snd (snd (the ?P1))) 1) = [10]"
    using spec[OF u1, of 1] in1 by (simp add: k1' f)
  \<comment> \<open>the enumeration ended by an exception\<close>
  have ne: "\<not> Option.is_none ?Pe" by code_simp
  then have pe: "?Pe = Some (fst (the ?Pe), fst (snd (the ?Pe)), snd (snd (the ?Pe)))"
    by (cases ?Pe) simp_all
  have oe: "outcome (fst (the ?Pe)) = Some (Raise (ValueError ''bad argument''))" by code_simp
  then have oe': "outcome (fst (the ?Pe)) \<noteq> Some StopIteration" by simp
  note v = trace_registers_tracer[OF h1 h2 h3 h4, where i=5 and E=demo_env and a=99 and k=0
      and ss="fst (the ?Pe)" and tf="fst (snd (the ?Pe))" and w'="snd (snd (the ?Pe))"]
  note v1 = mp[OF conjunct2[OF mp[OF conjunct2[OF conjunct2[OF conjunct2[OF v]]] pe]] oe']
  have c1: "hooks (gens (snd (snd (the ?Pe))) 1) = [10]"
    using spec[OF v1, of 1] in1 by (simp add: k1' f)
  show ?thesis
    by (rule conjI[OF h1 conjI[OF h2 conjI[OF h3 conjI[OF f conjI[OF r1 conjI[OF r2 conjI[OF o3
          conjI[OF a0 conjI[OF a1 conjI[OF a2 conjI[OF o1 conjI[OF b1 conjI[OF oe c1]]]]]]]]]]]]])
qed

end
